theory Spec2Isabelle
  imports Complex_Main
begin

section \<open>Python string operations used by the layout tool\<close>

text \<open>
  The tool handles scene nodes by their names, which are strings: a full DAG path
  such as \<open>|Originals|Pillar\<close>, or an attribute plug such as
  \<open>|Originals|Pillar.identifier\<close>. The three string methods it calls are modelled
  with Python's meaning.
\<close>

text \<open>\<open>s.rsplit(c, 1)\<close>: split once, at the last occurrence of the separator.\<close>

definition py_rsplit1 :: "char \<Rightarrow> string \<Rightarrow> string list" where
  "py_rsplit1 c s =
     (if c \<in> set s
      then [rev (tl (dropWhile (\<lambda>x. x \<noteq> c) (rev s))), rev (takeWhile (\<lambda>x. x \<noteq> c) (rev s))]
      else [s])"

text \<open>\<open>s.split(c, 1)\<close>: split once, at the first occurrence of the separator.\<close>

definition py_split1 :: "char \<Rightarrow> string \<Rightarrow> string list" where
  "py_split1 c s =
     (if c \<in> set s
      then [takeWhile (\<lambda>x. x \<noteq> c) s, tl (dropWhile (\<lambda>x. x \<noteq> c) s)]
      else [s])"

text \<open>\<open>s.split(c)\<close>: split at every occurrence of the separator.\<close>

fun py_split :: "char \<Rightarrow> string \<Rightarrow> string list" where
  "py_split c [] = [[]]"
| "py_split c (x # xs) =
     (if x = c then [] # py_split c xs
      else (case py_split c xs of
              [] \<Rightarrow> [[x]]
            | w # ws \<Rightarrow> (x # w) # ws))"

definition startswith :: "string \<Rightarrow> string \<Rightarrow> bool" where
  "startswith s pre = (take (length pre) s = pre)"

text \<open>\<open>shortName\<close> of the source: the last component of a DAG path.\<close>

definition shortName :: "string \<Rightarrow> string" where
  "shortName node = last (py_rsplit1 CHR ''|'' node)"

section \<open>Affine transforms\<close>

text \<open>
  A transform is kept as the host keeps it: the images of the three local axes and the
  translation, that is, the first three entries of each row of the host's row-major
  4x4 matrix (points are row vectors, \<open>p * M\<close>). The scene graph is modelled over the
  real numbers: what the host computes inside (the world transform of a node, the local
  transform that gives a world transform) is exact. The numbers it hands to the script
  are Python floats, and so are the results of the script's own arithmetic: both are
  rounded to the nearest double (\<open>fl\<close>, below).
\<close>

type_synonym vec3 = "real \<times> real \<times> real"

datatype affine = Affine (ax: vec3) (ay: vec3) (az: vec3) (tr: vec3)

definition vadd :: "vec3 \<Rightarrow> vec3 \<Rightarrow> vec3" where
  "vadd u v = (case u of (a, b, c) \<Rightarrow> case v of (d, e, f) \<Rightarrow> (a + d, b + e, c + f))"

definition vsub :: "vec3 \<Rightarrow> vec3 \<Rightarrow> vec3" where
  "vsub u v = (case u of (a, b, c) \<Rightarrow> case v of (d, e, f) \<Rightarrow> (a - d, b - e, c - f))"

definition vscale :: "real \<Rightarrow> vec3 \<Rightarrow> vec3" where
  "vscale k v = (case v of (d, e, f) \<Rightarrow> (k * d, k * e, k * f))"

definition identity :: affine where
  "identity = Affine (1, 0, 0) (0, 1, 0) (0, 0, 1) (0, 0, 0)"

text \<open>The linear part applied to a row vector: \<open>v * L\<close>.\<close>

definition lin_apply :: "affine \<Rightarrow> vec3 \<Rightarrow> vec3" where
  "lin_apply m v =
     (case v of (x, y, z) \<Rightarrow>
        vadd (vscale x (ax m)) (vadd (vscale y (ay m)) (vscale z (az m))))"

text \<open>The whole transform applied to a point: \<open>p * L + t\<close>.\<close>

definition apply_point :: "affine \<Rightarrow> vec3 \<Rightarrow> vec3" where
  "apply_point m p = vadd (lin_apply m p) (tr m)"

text \<open>\<open>compose a b\<close> is \<open>a\<close> followed by \<open>b\<close>, the matrix product \<open>A * B\<close>.\<close>

definition compose :: "affine \<Rightarrow> affine \<Rightarrow> affine" where
  "compose a b =
     Affine (lin_apply b (ax a)) (lin_apply b (ay a)) (lin_apply b (az a))
            (apply_point b (tr a))"

definition cross :: "vec3 \<Rightarrow> vec3 \<Rightarrow> vec3" where
  "cross u v =
     (case u of (a, b, c) \<Rightarrow> case v of (d, e, f) \<Rightarrow>
        (b * f - c * e, c * d - a * f, a * e - b * d))"

definition dot :: "vec3 \<Rightarrow> vec3 \<Rightarrow> real" where
  "dot u v = (case u of (a, b, c) \<Rightarrow> case v of (d, e, f) \<Rightarrow> a * d + b * e + c * f)"

definition det :: "affine \<Rightarrow> real" where
  "det m = dot (ax m) (cross (ay m) (az m))"

text \<open>
  The inverse transform. The columns of the inverse linear part are the cross products
  of the rows, divided by the determinant.
\<close>

definition inverse_affine :: "affine \<Rightarrow> affine" where
  "inverse_affine m =
     (let d = det m;
          c0 = vscale (1 / d) (cross (ay m) (az m));
          c1 = vscale (1 / d) (cross (az m) (ax m));
          c2 = vscale (1 / d) (cross (ax m) (ay m));
          l = Affine (fst c0, fst c1, fst c2)
                     (fst (snd c0), fst (snd c1), fst (snd c2))
                     (snd (snd c0), snd (snd c1), snd (snd c2))
                     (0, 0, 0)
      in Affine (ax l) (ay l) (az l) (vscale (- 1) (lin_apply l (tr m))))"

definition vec_list :: "vec3 \<Rightarrow> real list" where
  "vec_list v = (case v of (x, y, z) \<Rightarrow> [x, y, z])"

text \<open>The 16 numbers the host returns for a matrix query, in row order.\<close>

definition matrix_list :: "affine \<Rightarrow> real list" where
  "matrix_list m =
     vec_list (ax m) @ [0] @ vec_list (ay m) @ [0] @ vec_list (az m) @ [0] @ vec_list (tr m) @ [1]"

text \<open>
  The transform the host takes from 16 numbers in row order. A transform node holds an
  affine transform only, so the fourth column of the argument is not kept.
\<close>

definition affine_of_list :: "real list \<Rightarrow> affine" where
  "affine_of_list m =
     Affine (m ! 0, m ! 1, m ! 2) (m ! 4, m ! 5, m ! 6) (m ! 8, m ! 9, m ! 10)
            (m ! 12, m ! 13, m ! 14)"

subsection \<open>Floating-point numbers\<close>

text \<open>
  A Python float is an IEEE 754 double: 53 significant bits, the least spacing
  \<open>2^-1074\<close>, rounding to the nearest double, and to the one with the even
  significand when two are equally near. \<open>ulp_of k u a\<close> is the spacing of the doubles
  at the magnitude \<open>a\<close>, searched upwards from \<open>u\<close> in at most \<open>k\<close> doublings;
  \<open>fl x\<close> is the multiple of that spacing nearest to \<open>x\<close>. Overflow to infinity is
  not modelled: beyond the largest double \<open>fl\<close> goes on with the largest spacing.
\<close>

definition round_even :: "real \<Rightarrow> int" where
  "round_even y =
     (if y - of_int \<lfloor>y\<rfloor> < 1 / 2 then \<lfloor>y\<rfloor>
      else if 1 / 2 < y - of_int \<lfloor>y\<rfloor> then \<lfloor>y\<rfloor> + 1
      else if even \<lfloor>y\<rfloor> then \<lfloor>y\<rfloor> else \<lfloor>y\<rfloor> + 1)"

fun ulp_of :: "nat \<Rightarrow> real \<Rightarrow> real \<Rightarrow> real" where
  "ulp_of 0 u a = u"
| "ulp_of (Suc k) u a = (if a < 2 ^ 53 * u then u else ulp_of k (2 * u) a)"

definition least_ulp :: real where
  "least_ulp = 1 / 2 ^ 1074"

definition fl :: "real \<Rightarrow> real" where
  "fl x = of_int (round_even (x / ulp_of 2045 least_ulp \<bar>x\<bar>)) * ulp_of 2045 least_ulp \<bar>x\<bar>"

definition vfl :: "vec3 \<Rightarrow> vec3" where
  "vfl v = (case v of (x, y, z) \<Rightarrow> (fl x, fl y, fl z))"

text \<open>The difference of two triples of floats, as the script computes it.\<close>

definition fsub :: "vec3 \<Rightarrow> vec3 \<Rightarrow> vec3" where
  "fsub u v = (case u of (a, b, c) \<Rightarrow> case v of (d, e, f) \<Rightarrow> (fl (a - d), fl (b - e), fl (c - f)))"

section \<open>The host scene graph\<close>

text \<open>
  The tool is a script over the host application's scene graph, reached through the
  module \<open>cmds\<close>. The host is not part of the repository; this section is the model
  of the scene and of the commands the tool calls, each with the flags the tool gives
  it. A scene is a list of DAG nodes keyed by their full paths, in the order in which
  the host lists them, the current selection, and the log of undo commands.
\<close>

type_synonym path = "string list"

datatype node_kind = Transform | Shape

record node =
  uid :: nat
  kind :: node_kind
  xf :: affine
  ident :: "string option"
  lock_translate :: bool
  lock_rotate :: bool
  lock_scale :: bool
  lock_node :: bool
  visible :: bool

datatype undo_event = OpenChunk | CloseChunk | Undo

record scene =
  nodes :: "(path \<times> node) list"
  selection :: "path list"
  next_uid :: nat
  undo_log :: "undo_event list"

text \<open>
  Errors. Python sees a \<open>RuntimeError\<close> both when the tool calls \<open>cmds.error\<close>
  and when a host command fails; the model keeps the two apart, and keeps the reason of
  a host failure.
\<close>

datatype host_failure =
    NoObject | NodeLocked | AttributeLocked | BadParent | AlreadyChild | NoAttribute
  | AttributeExists | BadArgument | NoFreeName

datatype error = CmdsError string | HostError host_failure | IndexError | ValueError

type_synonym 'a cmd = "scene \<Rightarrow> (error + 'a) \<times> scene"

definition ret :: "'a \<Rightarrow> 'a cmd" where
  "ret x s = (Inr x, s)"

definition raise :: "error \<Rightarrow> 'a cmd" where
  "raise e s = (Inl e, s)"

text \<open>Sequencing: an error ends the sequence, and the scene reached so far stays.\<close>

definition thn :: "'a cmd \<Rightarrow> ('a \<Rightarrow> 'b cmd) \<Rightarrow> 'b cmd" where
  "thn m f s = (case m s of (Inl e, s') \<Rightarrow> (Inl e, s') | (Inr x, s') \<Rightarrow> f x s')"

text \<open>\<open>xs[0]\<close> of Python.\<close>

definition idx0 :: "'a list \<Rightarrow> 'a cmd" where
  "idx0 xs = (case xs of [] \<Rightarrow> raise IndexError | x # _ \<Rightarrow> ret x)"

subsection \<open>Paths and names\<close>

definition name_of_path :: "path \<Rightarrow> string" where
  "name_of_path p = concat (map (\<lambda>n. CHR ''|'' # n) p)"

text \<open>A full path name starts with the separator and has no empty component.\<close>

definition path_of_name :: "string \<Rightarrow> path option" where
  "path_of_name s =
     (case py_split CHR ''|'' s of
        [] \<Rightarrow> None
      | h # cs \<Rightarrow> if h = [] \<and> cs \<noteq> [] \<and> [] \<notin> set cs then Some cs else None)"

definition lookup :: "scene \<Rightarrow> path \<Rightarrow> node option" where
  "lookup s p = map_of (nodes s) p"

text \<open>A node name resolved to the node's path and the node.\<close>

definition resolve :: "scene \<Rightarrow> string \<Rightarrow> (path \<times> node) option" where
  "resolve s name =
     (case path_of_name name of
        None \<Rightarrow> None
      | Some p \<Rightarrow> (case lookup s p of None \<Rightarrow> None | Some n \<Rightarrow> Some (p, n)))"

text \<open>\<open>beneath p q\<close>: the node at \<open>q\<close> is the node at \<open>p\<close> or one of its descendants.\<close>

definition beneath :: "path \<Rightarrow> path \<Rightarrow> bool" where
  "beneath p q = (take (length p) q = p)"

definition rekey :: "path \<Rightarrow> path \<Rightarrow> path \<Rightarrow> path" where
  "rekey p p' q = (if beneath p q then p' @ drop (length p) q else q)"

definition child_names :: "scene \<Rightarrow> path \<Rightarrow> string list" where
  "child_names s p = map (\<lambda>e. last (fst e)) (filter (\<lambda>e. fst e \<noteq> [] \<and> butlast (fst e) = p) (nodes s))"

definition update_node :: "path \<Rightarrow> (node \<Rightarrow> node) \<Rightarrow> scene \<Rightarrow> scene" where
  "update_node p f s =
     s\<lparr>nodes := map (\<lambda>e. if fst e = p then (fst e, f (snd e)) else e) (nodes s)\<rparr>"

text \<open>
  Sibling names are unique. When a name is taken the host replaces its trailing digits
  by the first number that makes it free.
\<close>

definition digit_char :: "nat \<Rightarrow> char" where
  "digit_char n = ''0123456789'' ! n"

text \<open>The decimal digits of a number; the first argument bounds the number of digits.\<close>

fun digits_upto :: "nat \<Rightarrow> nat \<Rightarrow> string" where
  "digits_upto 0 n = [digit_char (n mod 10)]"
| "digits_upto (Suc k) n =
     (if n < 10 then [digit_char n] else digits_upto k (n div 10) @ [digit_char (n mod 10)])"

definition digits :: "nat \<Rightarrow> string" where
  "digits n = digits_upto n n"

definition stem :: "string \<Rightarrow> string" where
  "stem b = rev (dropWhile (\<lambda>c. c \<in> set ''0123456789'') (rev b))"

fun first_free :: "string list \<Rightarrow> string \<Rightarrow> nat \<Rightarrow> nat \<Rightarrow> string option" where
  "first_free taken st i 0 = None"
| "first_free taken st i (Suc k) =
     (if st @ digits i \<notin> set taken then Some (st @ digits i) else first_free taken st (Suc i) k)"

definition unique_name :: "string list \<Rightarrow> string \<Rightarrow> string option" where
  "unique_name taken b =
     (if b \<notin> set taken then Some b else first_free taken (stem b) 1 (Suc (length taken)))"

subsection \<open>World transforms\<close>

text \<open>
  The world transform of a node is its own transform followed by those of its ancestors.
  The recursion runs over the reversed path.
\<close>

fun world_rev :: "scene \<Rightarrow> path \<Rightarrow> affine" where
  "world_rev s [] = identity"
| "world_rev s (n # r) =
     compose (case lookup s (rev (n # r)) of None \<Rightarrow> identity | Some v \<Rightarrow> xf v) (world_rev s r)"

definition world :: "scene \<Rightarrow> path \<Rightarrow> affine" where
  "world s p = world_rev s (rev p)"

subsection \<open>Queries\<close>

text \<open>
  The name patterns the tool gives to \<open>cmds.ls\<close>: \<open>*\<close> (every node), a full path
  ending in \<open>|*\<close> (the children of a node), or a full path.
\<close>

datatype node_pattern = AnyNode | ChildrenOf path | Exactly path

definition node_pattern_of :: "string \<Rightarrow> node_pattern option" where
  "node_pattern_of s =
     (if s = ''*'' then Some AnyNode
      else (case path_of_name s of
              None \<Rightarrow> None
            | Some p \<Rightarrow> if last p = ''*'' then Some (ChildrenOf (butlast p)) else Some (Exactly p)))"

fun matches :: "node_pattern \<Rightarrow> path \<Rightarrow> bool" where
  "matches AnyNode q = True"
| "matches (ChildrenOf p) q = (q \<noteq> [] \<and> butlast q = p)"
| "matches (Exactly p) q = (q = p)"

definition is_transform :: "scene \<Rightarrow> path \<Rightarrow> bool" where
  "is_transform s p = (case lookup s p of None \<Rightarrow> False | Some n \<Rightarrow> kind n = Transform)"

text \<open>\<open>cmds.ls(sl=True, type="transform")\<close>\<close>

definition cmds_ls_sl_transform :: "string list cmd" where
  "cmds_ls_sl_transform s =
     ((Inr (map name_of_path (filter (is_transform s) (selection s))), s))"

text \<open>\<open>cmds.ls(pattern, sl=True, type="transform")\<close>\<close>

definition cmds_ls_pattern_sl_transform :: "string \<Rightarrow> string list cmd" where
  "cmds_ls_pattern_sl_transform pat s =
     (case node_pattern_of pat of
             None \<Rightarrow> (Inr [], s)
           | Some np \<Rightarrow>
               (Inr (map name_of_path
                      (filter (\<lambda>p. matches np p \<and> is_transform s p) (selection s))), s))"

text \<open>
  The tool's one custom attribute has the long name \<open>identifier\<close> and the short name
  \<open>id\<close>; \<open>ident\<close> of a node is \<open>None\<close> when the node does not have it.
\<close>

definition is_ident_attr :: "string \<Rightarrow> bool" where
  "is_ident_attr a = (a = ''identifier'' \<or> a = ''id'')"

text \<open>\<open>cmds.ls(pattern + ".identifier", l=True)\<close>: the plugs of the matching nodes that have the attribute.\<close>

definition cmds_ls_attr :: "string \<Rightarrow> string list cmd" where
  "cmds_ls_attr pat s =
     (case py_split1 CHR ''.'' pat of
             [np, a] \<Rightarrow>
               (case node_pattern_of np of
                  None \<Rightarrow> (Inr [], s)
                | Some q \<Rightarrow>
                    if is_ident_attr a
                    then (Inr (map (\<lambda>e. name_of_path (fst e) @ ''.identifier'')
                                (filter (\<lambda>e. matches q (fst e) \<and> ident (snd e) \<noteq> None) (nodes s))), s)
                    else (Inr [], s))
           | _ \<Rightarrow> (Inr [], s))"

text \<open>A plug name \<open>node.attr\<close> resolved to the node's path, the node and the attribute's name.\<close>

definition resolve_plug :: "scene \<Rightarrow> string \<Rightarrow> (path \<times> node \<times> string) option" where
  "resolve_plug s name =
     (case py_split1 CHR ''.'' name of
        [n, a] \<Rightarrow> (case resolve s n of None \<Rightarrow> None | Some (p, v) \<Rightarrow> Some (p, v, a))
      | _ \<Rightarrow> None)"

text \<open>\<open>cmds.objExists(name)\<close>, for a node name or a plug name.\<close>

definition cmds_objExists :: "string \<Rightarrow> bool cmd" where
  "cmds_objExists name s =
     (if CHR ''.'' \<in> set name
          then (case resolve_plug s name of
                  None \<Rightarrow> (Inr False, s)
                | Some (p, v, a) \<Rightarrow>
                    (Inr (if is_ident_attr a then ident v \<noteq> None
                          else a \<in> {''translate'', ''rotate'', ''scale''}), s))
          else (Inr (resolve s name \<noteq> None), s))"

text \<open>\<open>cmds.getAttr(plug)\<close>, for the identifier attribute.\<close>

definition cmds_getAttr :: "string \<Rightarrow> string cmd" where
  "cmds_getAttr plug s =
     (case resolve_plug s plug of
             None \<Rightarrow> (Inl (HostError NoObject), s)
           | Some (p, n, a) \<Rightarrow>
               if is_ident_attr a
               then (case ident n of
                       None \<Rightarrow> (Inl (HostError NoAttribute), s)
                     | Some v \<Rightarrow> (Inr v, s))
               else (Inl (HostError NoAttribute), s))"

text \<open>\<open>cmds.xform(node, q=True, ws=True, m=True)\<close>: the world matrix, 16 floats.\<close>

definition cmds_xform_q_ws_m :: "string \<Rightarrow> real list cmd" where
  "cmds_xform_q_ws_m name s =
     (case resolve s name of
             None \<Rightarrow> (Inl (HostError NoObject), s)
           | Some (p, n) \<Rightarrow> (Inr (map fl (matrix_list (world s p))), s))"

text \<open>
  \<open>cmds.xform(node, q=True, ws=True, rp=True)\<close>: the world position of the rotate
  pivot, 3 floats. Pivots are at the local origin of their nodes.
\<close>

definition cmds_xform_q_ws_rp :: "string \<Rightarrow> real list cmd" where
  "cmds_xform_q_ws_rp name s =
     (case resolve s name of
             None \<Rightarrow> (Inl (HostError NoObject), s)
           | Some (p, n) \<Rightarrow> (Inr (map fl (vec_list (tr (world s p)))), s))"

subsection \<open>Commands that change the scene\<close>

definition cmds_error :: "string \<Rightarrow> 'a cmd" where
  "cmds_error msg = raise (CmdsError msg)"

definition new_node :: "nat \<Rightarrow> node" where
  "new_node u =
     \<lparr>uid = u, kind = Transform, xf = identity, ident = None, lock_translate = False,
      lock_rotate = False, lock_scale = False, lock_node = False, visible = True\<rparr>"

text \<open>
  A new transform at the top of the scene, at the world origin; it becomes the
  selection. Both \<open>cmds.spaceLocator(name=n)\<close> and \<open>cmds.group(em=True, name=n)\<close>
  make one.
\<close>

definition create_root :: "string \<Rightarrow> string cmd" where
  "create_root name s =
     (case unique_name (child_names s []) name of
             None \<Rightarrow> (Inl (HostError NoFreeName), s)
           | Some nm \<Rightarrow>
               (Inr (name_of_path [nm]),
                s\<lparr>nodes := nodes s @ [([nm], new_node (next_uid s))],
                  selection := [[nm]],
                  next_uid := Suc (next_uid s)\<rparr>))"

definition cmds_spaceLocator :: "string \<Rightarrow> string list cmd" where
  "cmds_spaceLocator name = thn (create_root name) (\<lambda>n. ret [n])"

definition cmds_group_em :: "string \<Rightarrow> string cmd" where
  "cmds_group_em name = create_root name"

text \<open>
  Moving the subtree at \<open>c\<close> to the path \<open>c'\<close>: the nodes keep their places in the
  list, and the selection follows them.
\<close>

definition move_subtree :: "path \<Rightarrow> path \<Rightarrow> scene \<Rightarrow> scene" where
  "move_subtree c c' s =
     s\<lparr>nodes := map (\<lambda>e. (rekey c c' (fst e), snd e)) (nodes s),
       selection := map (rekey c c') (selection s)\<rparr>"

text \<open>
  \<open>cmds.parent(child, target)\<close> for one child, the target given by its path (the empty
  path is the world, \<open>w=True\<close>). The tool never gives \<open>relative=True\<close>, so the host
  keeps the child's world transform and changes its local one.
\<close>

definition parent_one :: "string \<Rightarrow> path \<Rightarrow> string cmd" where
  "parent_one child t s =
     (case resolve s child of
             None \<Rightarrow> (Inl (HostError NoObject), s)
           | Some (c, n) \<Rightarrow>
               if lock_node n then (Inl (HostError NodeLocked), s)
               else if beneath c t then (Inl (HostError BadParent), s)
               else if butlast c = t then (Inl (HostError AlreadyChild), s)
               else (case unique_name (child_names s t) (last c) of
                       None \<Rightarrow> (Inl (HostError NoFreeName), s)
                     | Some nm \<Rightarrow>
                         (Inr (name_of_path (t @ [nm])),
                          move_subtree c (t @ [nm])
                            (update_node c
                               (\<lambda>v. v\<lparr>xf := compose (world s c) (inverse_affine (world s t))\<rparr>) s))))"

fun parent_all :: "string list \<Rightarrow> path \<Rightarrow> string list cmd" where
  "parent_all [] t = ret []"
| "parent_all (c # cs) t =
     thn (parent_one c t) (\<lambda>r. thn (parent_all cs t) (\<lambda>rs. ret (r # rs)))"

definition select_names :: "string list \<Rightarrow> unit cmd" where
  "select_names ns s = (Inr (), s\<lparr>selection := map fst (List.map_filter (resolve s) ns)\<rparr>)"

definition cmds_parent :: "string list \<Rightarrow> string \<Rightarrow> string list cmd" where
  "cmds_parent children target s =
     (case resolve s target of
             None \<Rightarrow> (Inl (HostError NoObject), s)
           | Some (t, n) \<Rightarrow>
               thn (parent_all children t) (\<lambda>rs. thn (select_names rs) (\<lambda>_. ret rs)) s)"

text \<open>\<open>cmds.parent(children, w=True)\<close>\<close>

definition cmds_parent_world :: "string list \<Rightarrow> string list cmd" where
  "cmds_parent_world children =
     thn (parent_all children []) (\<lambda>rs. thn (select_names rs) (\<lambda>_. ret rs))"

text \<open>\<open>cmds.setAttr(node + ".translate", x, y, z)\<close>\<close>

definition cmds_setAttr_double3 :: "string \<Rightarrow> real \<Rightarrow> real \<Rightarrow> real \<Rightarrow> unit cmd" where
  "cmds_setAttr_double3 plug x y z s =
     (case resolve_plug s plug of
             None \<Rightarrow> (Inl (HostError NoObject), s)
           | Some (p, n, a) \<Rightarrow>
               if a \<noteq> ''translate'' then (Inl (HostError BadArgument), s)
               else if lock_translate n then (Inl (HostError AttributeLocked), s)
               else (Inr (), update_node p (\<lambda>v. v\<lparr>xf := Affine (ax (xf v)) (ay (xf v)) (az (xf v)) (x, y, z)\<rparr>) s))"

text \<open>
  \<open>cmds.setAttr(node + ".translate", lock=b)\<close>, and the same for \<open>rotate\<close> and
  \<open>scale\<close>. On a locked node the lock of an attribute cannot be changed.
\<close>

definition cmds_setAttr_lock :: "string \<Rightarrow> bool \<Rightarrow> unit cmd" where
  "cmds_setAttr_lock plug b s =
     (case resolve_plug s plug of
             None \<Rightarrow> (Inl (HostError NoObject), s)
           | Some (p, n, a) \<Rightarrow>
               if lock_node n then (Inl (HostError NodeLocked), s)
               else if a = ''translate'' then (Inr (), update_node p (\<lambda>v. v\<lparr>lock_translate := b\<rparr>) s)
               else if a = ''rotate'' then (Inr (), update_node p (\<lambda>v. v\<lparr>lock_rotate := b\<rparr>) s)
               else if a = ''scale'' then (Inr (), update_node p (\<lambda>v. v\<lparr>lock_scale := b\<rparr>) s)
               else (Inl (HostError NoAttribute), s))"

text \<open>\<open>cmds.lockNode(node, lock=b)\<close>\<close>

definition cmds_lockNode :: "string \<Rightarrow> bool \<Rightarrow> unit cmd" where
  "cmds_lockNode name b s =
     (case resolve s name of
             None \<Rightarrow> (Inl (HostError NoObject), s)
           | Some (p, n) \<Rightarrow> (Inr (), update_node p (\<lambda>v. v\<lparr>lock_node := b\<rparr>) s))"

text \<open>\<open>cmds.hide(nodes)\<close>\<close>

fun cmds_hide :: "string list \<Rightarrow> unit cmd" where
  "cmds_hide [] s = ret () s"
| "cmds_hide (name # names) s =
     (case resolve s name of
             None \<Rightarrow> (Inl (HostError NoObject), s)
           | Some (p, n) \<Rightarrow> cmds_hide names (update_node p (\<lambda>v. v\<lparr>visible := False\<rparr>) s))"

text \<open>
  \<open>cmds.addAttr(node, longName='identifier', shortName="id", dt="string")\<close>: the new
  attribute holds the empty string. A locked node takes no new attribute.
\<close>

definition cmds_addAttr :: "string \<Rightarrow> unit cmd" where
  "cmds_addAttr name s =
     (case resolve s name of
             None \<Rightarrow> (Inl (HostError NoObject), s)
           | Some (p, n) \<Rightarrow>
               if lock_node n then (Inl (HostError NodeLocked), s)
               else if ident n \<noteq> None then (Inl (HostError AttributeExists), s)
               else (Inr (), update_node p (\<lambda>v. v\<lparr>ident := Some []\<rparr>) s))"

text \<open>\<open>cmds.deleteAttr(node, attribute="identifier")\<close>\<close>

definition cmds_deleteAttr :: "string \<Rightarrow> string \<Rightarrow> unit cmd" where
  "cmds_deleteAttr name a s =
     (case resolve s name of
             None \<Rightarrow> (Inl (HostError NoObject), s)
           | Some (p, n) \<Rightarrow>
               if lock_node n then (Inl (HostError NodeLocked), s)
               else if \<not> is_ident_attr a \<or> ident n = None then (Inl (HostError NoAttribute), s)
               else (Inr (), update_node p (\<lambda>v. v\<lparr>ident := None\<rparr>) s))"

text \<open>\<open>cmds.setAttr(plug, value, type="string")\<close>\<close>

definition cmds_setAttr_string :: "string \<Rightarrow> string \<Rightarrow> unit cmd" where
  "cmds_setAttr_string plug val s =
     (case resolve_plug s plug of
             None \<Rightarrow> (Inl (HostError NoObject), s)
           | Some (p, n, a) \<Rightarrow>
               if \<not> is_ident_attr a \<or> ident n = None then (Inl (HostError NoAttribute), s)
               else (Inr (), update_node p (\<lambda>v. v\<lparr>ident := Some val\<rparr>) s))"

text \<open>
  \<open>cmds.duplicate(node)\<close>: a copy of the subtree beside the original, under a free
  name; the copies are new nodes with all the attributes of the nodes they copy. The
  copy becomes the selection.
\<close>

fun renumber :: "nat \<Rightarrow> (path \<times> node) list \<Rightarrow> (path \<times> node) list" where
  "renumber k [] = []"
| "renumber k (e # es) = (fst e, (snd e)\<lparr>uid := k\<rparr>) # renumber (Suc k) es"

definition cmds_duplicate :: "string \<Rightarrow> string list cmd" where
  "cmds_duplicate name s =
     (case resolve s name of
             None \<Rightarrow> (Inl (HostError NoObject), s)
           | Some (p, n) \<Rightarrow>
               (case unique_name (child_names s (butlast p)) (last p) of
                  None \<Rightarrow> (Inl (HostError NoFreeName), s)
                | Some nm \<Rightarrow>
                    (let p' = butlast p @ [nm];
                         sub = filter (\<lambda>e. beneath p (fst e)) (nodes s);
                         copies = renumber (next_uid s) (map (\<lambda>e. (rekey p p' (fst e), snd e)) sub)
                     in (Inr [name_of_path p'],
                         s\<lparr>nodes := nodes s @ copies,
                           selection := [p'],
                           next_uid := next_uid s + length sub\<rparr>))))"

text \<open>
  \<open>cmds.xform(nodes, ws=True, m=matrix)\<close>: the world transform of each node becomes
  the given one.
\<close>

fun cmds_xform_ws_m :: "string list \<Rightarrow> real list \<Rightarrow> unit cmd" where
  "cmds_xform_ws_m [] m s = ret () s"
| "cmds_xform_ws_m (name # names) m s =
     (case resolve s name of
             None \<Rightarrow> (Inl (HostError NoObject), s)
           | Some (p, n) \<Rightarrow>
               if length m \<noteq> 16 then (Inl (HostError BadArgument), s)
               else if lock_translate n \<or> lock_rotate n \<or> lock_scale n
               then (Inl (HostError AttributeLocked), s)
               else cmds_xform_ws_m names m
                      (update_node p
                         (\<lambda>v. v\<lparr>xf := compose (affine_of_list m) (inverse_affine (world s (butlast p)))\<rparr>) s))"

text \<open>The scene without the subtree at \<open>p\<close>; the selection loses the nodes that go.\<close>

definition remove_subtree :: "path \<Rightarrow> scene \<Rightarrow> scene" where
  "remove_subtree p s =
     s\<lparr>nodes := filter (\<lambda>e. \<not> beneath p (fst e)) (nodes s),
       selection := filter (\<lambda>q. \<not> beneath p q) (selection s)\<rparr>"

text \<open>\<open>cmds.delete(node)\<close>: the node and its descendants go. A locked node is not deleted.\<close>

definition cmds_delete :: "string \<Rightarrow> unit cmd" where
  "cmds_delete name s =
     (case resolve s name of
             None \<Rightarrow> (Inl (HostError NoObject), s)
           | Some (p, n) \<Rightarrow>
               if lock_node n then (Inl (HostError NodeLocked), s)
               else (Inr (), remove_subtree p s))"

text \<open>\<open>cmds.rename(node, name)\<close>, the node given as a list of one name. A locked node is not renamed.\<close>

definition cmds_rename :: "string list \<Rightarrow> string \<Rightarrow> string cmd" where
  "cmds_rename names new s =
     (case names of
             [name] \<Rightarrow>
               (case resolve s name of
                  None \<Rightarrow> (Inl (HostError NoObject), s)
                | Some (p, n) \<Rightarrow>
                    if lock_node n then (Inl (HostError NodeLocked), s)
                    else (case unique_name (remove1 (last p) (child_names s (butlast p))) new of
                            None \<Rightarrow> (Inl (HostError NoFreeName), s)
                          | Some nm \<Rightarrow>
                              (Inr (name_of_path (butlast p @ [nm])),
                               move_subtree p (butlast p @ [nm]) s)))
           | _ \<Rightarrow> (Inl (HostError BadArgument), s))"

text \<open>
  The undo queue: \<open>cmds.undoInfo(openChunk=True)\<close>, \<open>cmds.undoInfo(closeChunk=True)\<close>
  and \<open>cmds.undo()\<close> are recorded in the log. What an undo restores is the host's
  matter and is not modelled; no statement below is about the nodes after an undo.
\<close>

definition cmds_undoInfo_openChunk :: "unit cmd" where
  "cmds_undoInfo_openChunk s = (Inr (), s\<lparr>undo_log := undo_log s @ [OpenChunk]\<rparr>)"

definition cmds_undoInfo_closeChunk :: "unit cmd" where
  "cmds_undoInfo_closeChunk s = (Inr (), s\<lparr>undo_log := undo_log s @ [CloseChunk]\<rparr>)"

definition cmds_undo :: "unit cmd" where
  "cmds_undo s = (Inr (), s\<lparr>undo_log := undo_log s @ [Undo]\<rparr>)"

section \<open>The layout tool\<close>

text \<open>
  The functions of the source, in its order. Names the host returns are full paths;
  the tool only hands them back to the host, appends to them or takes their last
  component.
\<close>

definition lockTransform :: "string \<Rightarrow> unit cmd" where
  "lockTransform node =
     thn (cmds_setAttr_lock (node @ ''.translate'') True) (\<lambda>_.
     thn (cmds_setAttr_lock (node @ ''.rotate'') True) (\<lambda>_.
     thn (cmds_setAttr_lock (node @ ''.scale'') True) (\<lambda>_.
     cmds_lockNode node True)))"

definition unlockTransform :: "string \<Rightarrow> unit cmd" where
  "unlockTransform node =
     thn (cmds_lockNode node False) (\<lambda>_.
     thn (cmds_setAttr_lock (node @ ''.translate'') False) (\<lambda>_.
     thn (cmds_setAttr_lock (node @ ''.rotate'') False) (\<lambda>_.
     cmds_setAttr_lock (node @ ''.scale'') False)))"

definition addIdentifier :: "string \<Rightarrow> string \<Rightarrow> unit cmd" where
  "addIdentifier node identifier =
     thn (cmds_objExists (node @ ''.identifier'')) (\<lambda>ex.
     thn (if ex then cmds_deleteAttr node ''identifier'' else ret ()) (\<lambda>_.
     thn (cmds_addAttr node) (\<lambda>_.
     cmds_setAttr_string (node @ ''.id'') identifier)))"

definition select_one_msg :: string where
  "select_one_msg = ''Please select exactly 1 object.''"

text \<open>The \<open>try\<close> block of \<open>instantiateOriginal\<close>.\<close>

definition instantiateOriginal_try :: "string option \<Rightarrow> string list cmd" where
  "instantiateOriginal_try original =
     thn (case original of
            None \<Rightarrow>
              thn (cmds_ls_pattern_sl_transform ''|Originals|*'') (\<lambda>selection.
              thn (if selection = [] \<or> length selection \<noteq> 1 then cmds_error select_one_msg else ret ()) (\<lambda>_.
              idx0 selection))
          | Some given \<Rightarrow> ret given) (\<lambda>original.
     thn (cmds_duplicate original) (\<lambda>d.
     thn (idx0 d) (\<lambda>copy.
     thn (unlockTransform copy) (\<lambda>_.
     cmds_parent_world [copy]))))"

text \<open>
  \<open>instantiateOriginal\<close>: on an error the chunk is closed, one undo is done and the
  error is raised again.
\<close>

definition instantiateOriginal :: "string option \<Rightarrow> string list cmd" where
  "instantiateOriginal original =
     thn cmds_undoInfo_openChunk (\<lambda>_ s.
       case instantiateOriginal_try original s of
         (Inl e, s') \<Rightarrow> thn cmds_undoInfo_closeChunk (\<lambda>_. thn cmds_undo (\<lambda>_. raise e)) s'
       | (Inr copy, s') \<Rightarrow> thn cmds_undoInfo_closeChunk (\<lambda>_. ret copy) s')"

text \<open>The \<open>try\<close> block of \<open>initializeOriginal\<close>.\<close>

definition make_locator :: "string \<Rightarrow> string \<Rightarrow> string cmd" where
  "make_locator name target =
     thn (cmds_spaceLocator name) (\<lambda>l. thn (cmds_parent l target) idx0)"

text \<open>Lines 54 to 61: the four locators are made under the selected transform and hidden.\<close>

definition attach_locators :: "string \<Rightarrow> unit cmd" where
  "attach_locators sel0 =
     thn (make_locator ''Zero'' sel0) (\<lambda>zero.
     thn (make_locator ''X'' sel0) (\<lambda>X.
     thn (make_locator ''Y'' sel0) (\<lambda>Y.
     thn (make_locator ''Z'' sel0) (\<lambda>Z.
     thn (cmds_setAttr_double3 (X @ ''.translate'') 1 0 0) (\<lambda>_.
     thn (cmds_setAttr_double3 (Y @ ''.translate'') 0 1 0) (\<lambda>_.
     thn (cmds_setAttr_double3 (Z @ ''.translate'') 0 0 1) (\<lambda>_.
     cmds_hide [zero, X, Y, Z])))))))"

text \<open>Lines 64 to 67: the group of the originals is made when it does not exist.\<close>

definition ensure_originals :: "unit cmd" where
  "ensure_originals =
     thn (cmds_objExists ''|Originals'') (\<lambda>ex.
     if \<not> ex
     then thn (cmds_group_em ''Originals'') (\<lambda>originals.
          thn (lockTransform originals) (\<lambda>_.
          cmds_hide [originals]))
     else ret ())"

text \<open>Lines 49 to 76: everything in the \<open>try\<close> block before the call of \<open>instantiateOriginal\<close>.\<close>

definition publish_steps :: "unit cmd" where
  "publish_steps =
     thn cmds_ls_sl_transform (\<lambda>selection.
     thn (if selection = [] \<or> length selection \<noteq> 1 then cmds_error select_one_msg else ret ()) (\<lambda>_.
     thn (idx0 selection) (\<lambda>sel0.
     thn (attach_locators sel0) (\<lambda>_.
     thn ensure_originals (\<lambda>_.
     thn (cmds_parent selection ''|Originals'') (\<lambda>selection.
     thn (idx0 selection) (\<lambda>sel0.
     thn (addIdentifier sel0 (shortName sel0)) (\<lambda>_.
     lockTransform sel0))))))))"

definition initializeOriginal_try :: "unit cmd" where
  "initializeOriginal_try =
     thn publish_steps (\<lambda>_.
     thn (instantiateOriginal None) (\<lambda>_.
     ret ()))"

text \<open>
  \<open>initializeOriginal\<close>: the \<open>except\<close> branch closes the chunk and raises the error
  again (its undo is commented out in the source); the \<open>else\<close> branch closes the chunk.
\<close>

definition initializeOriginal :: "unit cmd" where
  "initializeOriginal =
     thn cmds_undoInfo_openChunk (\<lambda>_ s.
       case initializeOriginal_try s of
         (Inl e, s') \<Rightarrow> thn cmds_undoInfo_closeChunk (\<lambda>_. raise e) s'
       | (Inr u, s') \<Rightarrow> thn cmds_undoInfo_closeChunk (\<lambda>_. ret ()) s')"

text \<open>\<open>findOriginal\<close>: \<open>None\<close> when the loop ends without a match.\<close>

fun findOriginal_loop :: "string \<Rightarrow> string list \<Rightarrow> string option cmd" where
  "findOriginal_loop identifier [] = ret None"
| "findOriginal_loop identifier (original # originals) =
     thn (cmds_getAttr original) (\<lambda>v.
       if v = identifier
       then thn (idx0 (py_split1 CHR ''.'' original)) (\<lambda>n. ret (Some n))
       else findOriginal_loop identifier originals)"

definition findOriginal :: "string \<Rightarrow> string option cmd" where
  "findOriginal identifier =
     thn (cmds_ls_attr ''|Originals|*.identifier'') (\<lambda>originals.
     findOriginal_loop identifier originals)"

text \<open>\<open>row[i] -= row3[i]\<close>, a subtraction of floats.\<close>

definition isub :: "real list \<Rightarrow> nat \<Rightarrow> real list \<Rightarrow> real list cmd" where
  "isub row i row3 =
     (if i < length row \<and> i < length row3 then ret (row[i := fl (row ! i - row3 ! i)])
      else raise IndexError)"

definition matrixFromLocators :: "string \<Rightarrow> real list cmd" where
  "matrixFromLocators node =
     thn (cmds_xform_q_ws_rp (node @ ''|X'')) (\<lambda>row0.
     thn (cmds_xform_q_ws_rp (node @ ''|Y'')) (\<lambda>row1.
     thn (cmds_xform_q_ws_rp (node @ ''|Z'')) (\<lambda>row2.
     thn (cmds_xform_q_ws_rp (node @ ''|Zero'')) (\<lambda>row3.
     thn (isub row0 0 row3) (\<lambda>row0.
     thn (isub row0 1 row3) (\<lambda>row0.
     thn (isub row0 2 row3) (\<lambda>row0.
     thn (isub row1 0 row3) (\<lambda>row1.
     thn (isub row1 1 row3) (\<lambda>row1.
     thn (isub row1 2 row3) (\<lambda>row1.
     thn (isub row2 0 row3) (\<lambda>row2.
     thn (isub row2 1 row3) (\<lambda>row2.
     thn (isub row2 2 row3) (\<lambda>row2.
     ret ((row0 @ [0]) @ (row1 @ [0]) @ (row2 @ [0]) @ (row3 @ [0])))))))))))))))"

definition select_two_msg :: string where
  "select_two_msg = ''Please select the new and then the old object.''"

definition missing_identifier_msg :: string where
  "missing_identifier_msg =
     ''Please select the new and then the old object.'' @
     ''The old object is missing the identifier attribute, '' @
     ''did you select in the wrong order?''"

definition not_found_msg :: "string \<Rightarrow> string" where
  "not_found_msg identifier =
     ''Unexpected error, could not find original object with '' @ identifier @ ''.''"

text \<open>The body of the loop over the instances, for one plug of the list.\<close>

definition replace_instance :: "string \<Rightarrow> string \<Rightarrow> unit cmd" where
  "replace_instance new instance =
     thn (instantiateOriginal (Some new)) (\<lambda>copy.
     thn (idx0 (py_split1 CHR ''.'' instance)) (\<lambda>instance.
     thn (matrixFromLocators instance) (\<lambda>matrix.
     thn (cmds_xform_ws_m copy matrix) (\<lambda>_.
     thn (cmds_delete instance) (\<lambda>_.
     thn (case py_rsplit1 CHR ''|'' instance of
            [parent, old_name] \<Rightarrow> ret (parent, old_name)
          | _ \<Rightarrow> raise ValueError) (\<lambda>(parent, old_name).
     thn (if parent \<noteq> [] then cmds_parent copy parent else ret copy) (\<lambda>copy.
     thn (cmds_rename copy old_name) (\<lambda>copy.
     ret ()))))))))"

fun update_instances :: "string \<Rightarrow> string \<Rightarrow> string list \<Rightarrow> unit cmd" where
  "update_instances identifier new [] = ret ()"
| "update_instances identifier new (instance # instances) =
     (if startswith instance ''|Originals|'' then update_instances identifier new instances
      else thn (cmds_getAttr instance) (\<lambda>v.
             if v \<noteq> identifier then update_instances identifier new instances
             else thn (replace_instance new instance) (\<lambda>_.
                  update_instances identifier new instances)))"

text \<open>The first part of \<open>updateOriginalAndInstances\<close>: the original is replaced.\<close>

fun move_locators :: "string list \<Rightarrow> string \<Rightarrow> unit cmd" where
  "move_locators [] new = ret ()"
| "move_locators (locator # locators) new =
     thn (cmds_parent [locator] new) (\<lambda>_. move_locators locators new)"

definition update_original :: "(string \<times> string) cmd" where
  "update_original =
     thn cmds_ls_sl_transform (\<lambda>selection.
     thn (if selection = [] \<or> length selection \<noteq> 2 then cmds_error select_two_msg else ret ()) (\<lambda>_.
     thn (cmds_objExists (selection ! 1 @ ''.identifier'')) (\<lambda>ex.
     thn (if \<not> ex then cmds_error missing_identifier_msg else ret ()) (\<lambda>_.
     thn (cmds_duplicate (selection ! 0)) (\<lambda>d.
     thn (idx0 d) (\<lambda>new.
     thn (cmds_getAttr (selection ! 1 @ ''.identifier'')) (\<lambda>identifier.
     thn (findOriginal identifier) (\<lambda>found.
     thn (case found of
            None \<Rightarrow> cmds_error (not_found_msg identifier)
          | Some old \<Rightarrow> ret old) (\<lambda>old.
     thn (cmds_xform_q_ws_m old) (\<lambda>oldMatrix.
     thn (cmds_xform_ws_m [new] oldMatrix) (\<lambda>_.
     thn (move_locators [old @ ''|Zero'', old @ ''|X'', old @ ''|Y'', old @ ''|Z''] new) (\<lambda>_.
     thn (addIdentifier new identifier) (\<lambda>_.
     thn (unlockTransform old) (\<lambda>_.
     thn (cmds_delete old) (\<lambda>_.
     thn (cmds_parent [new] ''|Originals'') (\<lambda>new.
     thn (cmds_rename new (shortName old)) (\<lambda>new.
     thn (lockTransform new) (\<lambda>_.
     ret (identifier, new)))))))))))))))))))"

definition updateOriginalAndInstances :: "unit cmd" where
  "updateOriginalAndInstances =
     thn update_original (\<lambda>(identifier, new).
     thn (cmds_ls_attr ''*.identifier'') (\<lambda>instances.
     update_instances identifier new instances))"

section \<open>Specification vocabulary\<close>

text \<open>
  Node names of the host have no separator and no dot in them and are not empty. In a
  well-formed scene every node has a path of such names, and no two nodes share a path.
\<close>

definition valid_name :: "string \<Rightarrow> bool" where
  "valid_name n = (n \<noteq> [] \<and> CHR ''|'' \<notin> set n \<and> CHR ''.'' \<notin> set n)"

definition valid_path :: "path \<Rightarrow> bool" where
  "valid_path p = (p \<noteq> [] \<and> list_all valid_name p)"

definition wf_scene :: "scene \<Rightarrow> bool" where
  "wf_scene s = (distinct (map fst (nodes s)) \<and> list_all (\<lambda>e. valid_path (fst e)) (nodes s))"

text \<open>A command that leaves the undo log as it is.\<close>

definition keeps_log :: "'a cmd \<Rightarrow> bool" where
  "keeps_log m = (\<forall>s r s'. m s = (r, s') \<longrightarrow> undo_log s' = undo_log s)"

subsection \<open>Example scenes\<close>

text \<open>A scene with one transform \<open>Pillar\<close> at the top, translated by \<open>t\<close>, and selected.\<close>

definition pillar_at :: "vec3 \<Rightarrow> scene" where
  "pillar_at t =
     \<lparr>nodes = [([''Pillar''], (new_node 0)\<lparr>xf := Affine (1, 0, 0) (0, 1, 0) (0, 0, 1) t\<rparr>)],
      selection = [[''Pillar'']], next_uid = 1, undo_log = []\<rparr>"

text \<open>A hidden locator with the local position \<open>t\<close>.\<close>

definition locator_node :: "nat \<Rightarrow> vec3 \<Rightarrow> node" where
  "locator_node u t =
     (new_node u)\<lparr>xf := Affine (1, 0, 0) (0, 1, 0) (0, 0, 1) t, visible := False\<rparr>"

text \<open>
  The transform \<open>Pillar\<close> with the local transform \<open>m\<close> and the four locators at the
  positions the tool gives them when \<open>Pillar\<close> is at the identity.
\<close>

definition framed_pillar :: "affine \<Rightarrow> scene" where
  "framed_pillar m =
     \<lparr>nodes = [([''Pillar''], (new_node 0)\<lparr>xf := m\<rparr>),
               ([''Pillar'', ''Zero''], locator_node 1 (0, 0, 0)),
               ([''Pillar'', ''X''], locator_node 2 (1, 0, 0)),
               ([''Pillar'', ''Y''], locator_node 3 (0, 1, 0)),
               ([''Pillar'', ''Z''], locator_node 4 (0, 0, 1))],
      selection = [[''Pillar'', ''Z'']], next_uid = 5, undo_log = []\<rparr>"


text \<open>A scene in which the group of the originals is the selected transform.\<close>

definition originals_selected :: scene where
  "originals_selected =
     \<lparr>nodes = [([''Originals''], new_node 0)],
      selection = [[''Originals'']], next_uid = 1, undo_log = []\<rparr>"

text \<open>
  The scene in which \<open>initializeOriginal\<close> stops on that selection: the four locators are
  under the group.
\<close>

definition locators_left :: scene where
  "locators_left =
     \<lparr>nodes = [([''Originals''], new_node 0),
               ([''Originals'', ''Zero''], locator_node 1 (0, 0, 0)),
               ([''Originals'', ''X''], locator_node 2 (1, 0, 0)),
               ([''Originals'', ''Y''], locator_node 3 (0, 1, 0)),
               ([''Originals'', ''Z''], locator_node 4 (0, 0, 1))],
      selection = [[''Originals'', ''Z'']], next_uid = 5, undo_log = [OpenChunk]\<rparr>"

text \<open>The direct children of the group \<open>|Originals\<close>: the nodes the pattern \<open>|Originals|*\<close> matches.\<close>

definition in_store :: "path \<Rightarrow> bool" where
  "in_store p = (p \<noteq> [] \<and> butlast p = [''Originals''])"

text \<open>No node in the group of the originals carries the identifier.\<close>

definition no_canonical_with :: "scene \<Rightarrow> string \<Rightarrow> bool" where
  "no_canonical_with s identifier =
     list_all (\<lambda>e. \<not> (in_store (fst e) \<and> ident (snd e) = Some identifier)) (nodes s)"

text \<open>Two selected transforms, the second tagged \<open>Pillar\<close>, and no group of originals.\<close>

definition two_tagged :: scene where
  "two_tagged =
     \<lparr>nodes = [([''New''], new_node 0),
               ([''Old''], (new_node 1)\<lparr>ident := Some ''Pillar''\<rparr>)],
      selection = [[''New''], [''Old'']], next_uid = 2, undo_log = []\<rparr>"


text \<open>The same scene after the first transform has been duplicated.\<close>

definition two_tagged_dup :: scene where
  "two_tagged_dup =
     \<lparr>nodes = [([''New''], new_node 0),
               ([''Old''], (new_node 1)\<lparr>ident := Some ''Pillar''\<rparr>),
               ([''New1''], new_node 2)],
      selection = [[''New1'']], next_uid = 3, undo_log = []\<rparr>"

text \<open>The scene that \<open>initializeOriginal\<close> makes of \<open>pillar_at (5, 0, 0)\<close>.\<close>

definition published_5 :: scene where
  "published_5 =
     \<lparr>nodes =
        [([''Originals'', ''Pillar''],
          (new_node 0)\<lparr>xf := Affine (1, 0, 0) (0, 1, 0) (0, 0, 1) (5, 0, 0), ident := Some ''Pillar'',
            lock_translate := True, lock_rotate := True, lock_scale := True, lock_node := True\<rparr>),
         ([''Originals'', ''Pillar'', ''Zero''], locator_node 1 (- 5, 0, 0)),
         ([''Originals'', ''Pillar'', ''X''], locator_node 2 (1, 0, 0)),
         ([''Originals'', ''Pillar'', ''Y''], locator_node 3 (0, 1, 0)),
         ([''Originals'', ''Pillar'', ''Z''], locator_node 4 (0, 0, 1)),
         ([''Originals''],
          (new_node 5)\<lparr>lock_translate := True, lock_rotate := True, lock_scale := True,
            lock_node := True, visible := False\<rparr>),
         ([''Pillar1''],
          (new_node 6)\<lparr>xf := Affine (1, 0, 0) (0, 1, 0) (0, 0, 1) (5, 0, 0), ident := Some ''Pillar''\<rparr>),
         ([''Pillar1'', ''Zero''], locator_node 7 (- 5, 0, 0)),
         ([''Pillar1'', ''X''], locator_node 8 (1, 0, 0)),
         ([''Pillar1'', ''Y''], locator_node 9 (0, 1, 0)),
         ([''Pillar1'', ''Z''], locator_node 10 (0, 0, 1))],
      selection = [[''Pillar1'']], next_uid = 11,
      undo_log = [OpenChunk, OpenChunk, CloseChunk, CloseChunk]\<rparr>"

text \<open>
  The same scene once the user has made a new version \<open>NewPillar\<close> and selected it
  and then the instance \<open>Pillar1\<close>.
\<close>

definition republish_5 :: scene where
  "republish_5 =
     published_5\<lparr>nodes := nodes published_5 @ [([''NewPillar''], new_node 11)],
       selection := [[''NewPillar''], [''Pillar1'']], next_uid := 12\<rparr>"



text \<open>
  A scene with an original \<open>Pillar\<close>, an instance \<open>Pillar1\<close> of it, an instance
  \<open>Chair1\<close> of another original parented under \<open>Pillar1\<close>, and a new version
  \<open>NewPillar\<close>; the new version and then the instance are selected.
\<close>

definition nested :: scene where
  "nested =
     \<lparr>nodes =
        [([''Originals''], (new_node 0)\<lparr>lock_node := True\<rparr>),
         ([''Originals'', ''Pillar''], (new_node 1)\<lparr>ident := Some ''Pillar'', lock_node := True\<rparr>),
         ([''Originals'', ''Pillar'', ''Zero''], locator_node 2 (0, 0, 0)),
         ([''Originals'', ''Pillar'', ''X''], locator_node 3 (1, 0, 0)),
         ([''Originals'', ''Pillar'', ''Y''], locator_node 4 (0, 1, 0)),
         ([''Originals'', ''Pillar'', ''Z''], locator_node 5 (0, 0, 1)),
         ([''Pillar1'', ''Chair1''], (new_node 6)\<lparr>ident := Some ''Chair''\<rparr>),
         ([''Pillar1''],
          (new_node 7)\<lparr>ident := Some ''Pillar'', xf := Affine (1, 0, 0) (0, 1, 0) (0, 0, 1) (5, 0, 0)\<rparr>),
         ([''Pillar1'', ''Zero''], locator_node 8 (0, 0, 0)),
         ([''Pillar1'', ''X''], locator_node 9 (1, 0, 0)),
         ([''Pillar1'', ''Y''], locator_node 10 (0, 1, 0)),
         ([''Pillar1'', ''Z''], locator_node 11 (0, 0, 1)),
         ([''NewPillar''], new_node 12)],
      selection = [[''NewPillar''], [''Pillar1'']], next_uid = 13, undo_log = []\<rparr>"

subsection \<open>Running a sequence\<close>

text \<open>
  The rest of a sequence, by cases on the outcome of its first command: \<open>thn m f s\<close>
  is \<open>cont (m s) f\<close>.
\<close>

fun cont :: "(error + 'a) \<times> scene \<Rightarrow> ('a \<Rightarrow> 'b cmd) \<Rightarrow> (error + 'b) \<times> scene" where
  "cont (Inl e, s) f = (Inl e, s)"
| "cont (Inr x, s) f = f x s"

text \<open>
  The paths of the nodes of a scene. In a scene tree the paths are distinct and made of
  node names, and every node below the top level has its parent in the scene.
\<close>

definition keys :: "scene \<Rightarrow> path list" where
  "keys s = map fst (nodes s)"

definition closed_keys :: "scene \<Rightarrow> bool" where
  "closed_keys s = list_all (\<lambda>k. length k \<le> 1 \<or> butlast k \<in> set (keys s)) (keys s)"

definition wf_tree :: "scene \<Rightarrow> bool" where
  "wf_tree s = (wf_scene s \<and> closed_keys s)"




definition lock_fields :: "node \<Rightarrow> node" where
  "lock_fields v = v\<lparr>lock_translate := True, lock_rotate := True, lock_scale := True, lock_node := True\<rparr>"

text \<open>A command that raises no error of the tool's own (\<open>cmds.error\<close>), only errors of the host.\<close>

definition host_errors_only :: "'a cmd \<Rightarrow> bool" where
  "host_errors_only m = (\<forall>s e s'. m s = (Inl e, s') \<longrightarrow> (\<forall>msg. e \<noteq> CmdsError msg))"


text \<open>The number a string of decimal digits stands for.\<close>

definition digit_val :: "char \<Rightarrow> nat" where
  "digit_val c = length (takeWhile (\<lambda>d. d \<noteq> c) ''0123456789'')"

definition digits_val :: "string \<Rightarrow> nat" where
  "digits_val ds = foldl (\<lambda>a c. 10 * a + digit_val c) 0 ds"

text \<open>A scene with one more node, a child \<open>c\<close> of the node at \<open>p\<close>, which becomes the selection.\<close>

definition add_leaf :: "path \<Rightarrow> string \<Rightarrow> node \<Rightarrow> scene \<Rightarrow> scene" where
  "add_leaf p c v s =
     s\<lparr>nodes := nodes s @ [(p @ [c], v)], selection := [p @ [c]], next_uid := Suc (next_uid s)\<rparr>"







section \<open>Basic facts\<close>

declare cmds_hide.simps [simp del] cmds_xform_ws_m.simps [simp del]

subsection \<open>Rounding\<close>


lemma round_even_of_int [simp]: "round_even (of_int m) = m"
  by (simp add: round_even_def)





lemma ulp_of_dyadic:
  "u * 2 ^ j = 1 \<Longrightarrow> a < 2 ^ 53 \<Longrightarrow> \<exists>i. ulp_of k u a * 2 ^ i = 1"
proof (induction k arbitrary: u j)
  case 0
  then show ?case by auto
next
  case (Suc k)
  show ?case
  proof (cases "a < 2 ^ 53 * u")
    case True
    then show ?thesis using Suc.prems(1) by auto
  next
    case False
    then have "2 ^ 53 * u < 2 ^ 53 * 1" using Suc.prems(2) by simp
    then have u1: "u < 1" by (simp only: mult_less_cancel_left_pos zero_less_power zero_less_numeral)
    have "j \<noteq> 0" using Suc.prems(1) u1 by (cases j) auto
    then obtain j' where j: "j = Suc j'" by (cases j) auto
    have "(2 * u) * 2 ^ j' = 1" using Suc.prems(1) by (simp add: j)
    from Suc.IH[OF this Suc.prems(2)] show ?thesis using False by simp
  qed
qed

lemma fl_of_int:
  assumes "\<bar>real_of_int k\<bar> < 2 ^ 53"
  shows "fl (of_int k) = of_int k"
proof -
  define u where "u = ulp_of 2045 least_ulp \<bar>real_of_int k\<bar>"
  have "least_ulp * 2 ^ 1074 = 1" by (simp add: least_ulp_def)
  from ulp_of_dyadic[OF this assms] obtain i where i: "u * 2 ^ i = 1" unfolding u_def by blast
  then have u: "u = 1 / 2 ^ i" by (simp add: field_simps)
  have "of_int k / u = real_of_int (k * 2 ^ i)" by (simp add: u)
  then have "round_even (of_int k / u) = k * 2 ^ i" by (simp only: round_even_of_int)
  then have "fl (of_int k) = of_int (k * 2 ^ i) * u" by (simp add: fl_def u_def)
  also have "\<dots> = of_int k" by (simp add: u)
  finally show ?thesis .
qed

lemma fl_simps [simp]:
  "fl 0 = 0" "fl 1 = 1"
  "numeral n < (2 :: real) ^ 53 \<Longrightarrow> fl (numeral n) = numeral n"
  "numeral n < (2 :: real) ^ 53 \<Longrightarrow> fl (- numeral n) = - numeral n"
  "fl (- 1) = - 1"
  using fl_of_int[of 0] fl_of_int[of 1] fl_of_int[of "numeral n"] fl_of_int[of "- numeral n"]
    fl_of_int[of "- 1"]
  by simp_all

lemma map_fl_vec_list: "map fl (vec_list v) = vec_list (vfl v)"
  by (cases v) (simp add: vec_list_def vfl_def)

subsection \<open>Sequencing\<close>

lemma thn_Inr: "m s = (Inr x, s') \<Longrightarrow> thn m f s = f x s'"
  by (simp add: thn_def)

lemma thn_Inl: "m s = (Inl e, s') \<Longrightarrow> thn m f s = (Inl e, s')"
  by (simp add: thn_def)

lemma thn_InrE:
  assumes "thn m f s = (Inr y, s'')"
  obtains x s' where "m s = (Inr x, s')" and "f x s' = (Inr y, s'')"
  using assms by (auto simp: thn_def split: prod.splits sum.splits)

lemma rp_shape:
  assumes "cmds_xform_q_ws_rp name s = (Inr r, s')"
  shows "s' = s \<and> (\<exists>p n. resolve s name = Some (p, n) \<and> r = vec_list (vfl (tr (world s p))))"
  using assms by (auto simp: cmds_xform_q_ws_rp_def map_fl_vec_list split: option.splits)

lemma isub3:
  "isub [a, b, c] 0 [x, y, z] = ret [fl (a - x), b, c]"
  "isub [a, b, c] (Suc 0) [x, y, z] = ret [a, fl (b - y), c]"
  "isub [a, b, c] 2 [x, y, z] = ret [a, b, fl (c - z)]"
  by (simp_all add: isub_def)

lemma matrixFromLocators_rows:
  assumes "cmds_xform_q_ws_rp (node @ ''|X'') s = (Inr (vec_list a), s)"
      and "cmds_xform_q_ws_rp (node @ ''|Y'') s = (Inr (vec_list b), s)"
      and "cmds_xform_q_ws_rp (node @ ''|Z'') s = (Inr (vec_list c), s)"
      and "cmds_xform_q_ws_rp (node @ ''|Zero'') s = (Inr (vec_list w), s)"
  shows "matrixFromLocators node s =
           (Inr (vec_list (fsub a w) @ [0] @ vec_list (fsub b w) @ [0] @
                 vec_list (fsub c w) @ [0] @ vec_list w @ [0]), s)"
  using assms
  by (cases a; cases b; cases c; cases w)
     (simp add: matrixFromLocators_def thn_def vec_list_def isub3 ret_def fsub_def)

lemma matrixFromLocators_InrD:
  assumes "matrixFromLocators node s = (Inr m, s')"
  shows "s' = s \<and> (\<exists>a b c w.
           cmds_xform_q_ws_rp (node @ ''|X'') s = (Inr (vec_list a), s) \<and>
           cmds_xform_q_ws_rp (node @ ''|Y'') s = (Inr (vec_list b), s) \<and>
           cmds_xform_q_ws_rp (node @ ''|Z'') s = (Inr (vec_list c), s) \<and>
           cmds_xform_q_ws_rp (node @ ''|Zero'') s = (Inr (vec_list w), s) \<and>
           m = vec_list (fsub a w) @ [0] @ vec_list (fsub b w) @ [0] @
               vec_list (fsub c w) @ [0] @ vec_list w @ [0])"
proof -
  from assms obtain r0 s0 where q0: "cmds_xform_q_ws_rp (node @ ''|X'') s = (Inr r0, s0)"
    by (auto simp: matrixFromLocators_def thn_def split: prod.splits sum.splits)
  then obtain a where a: "s0 = s" "r0 = vec_list a" using rp_shape by blast
  from assms q0 a obtain r1 s1 where q1: "cmds_xform_q_ws_rp (node @ ''|Y'') s = (Inr r1, s1)"
    by (auto simp: matrixFromLocators_def thn_def split: prod.splits sum.splits)
  then obtain b where b: "s1 = s" "r1 = vec_list b" using rp_shape by blast
  from assms q0 a q1 b obtain r2 s2 where q2: "cmds_xform_q_ws_rp (node @ ''|Z'') s = (Inr r2, s2)"
    by (auto simp: matrixFromLocators_def thn_def split: prod.splits sum.splits)
  then obtain c where c: "s2 = s" "r2 = vec_list c" using rp_shape by blast
  from assms q0 a q1 b q2 c obtain r3 s3 where q3: "cmds_xform_q_ws_rp (node @ ''|Zero'') s = (Inr r3, s3)"
    by (auto simp: matrixFromLocators_def thn_def split: prod.splits sum.splits)
  then obtain w where w: "s3 = s" "r3 = vec_list w" using rp_shape by blast
  have qs: "cmds_xform_q_ws_rp (node @ ''|X'') s = (Inr (vec_list a), s)"
           "cmds_xform_q_ws_rp (node @ ''|Y'') s = (Inr (vec_list b), s)"
           "cmds_xform_q_ws_rp (node @ ''|Z'') s = (Inr (vec_list c), s)"
           "cmds_xform_q_ws_rp (node @ ''|Zero'') s = (Inr (vec_list w), s)"
    using q0 q1 q2 q3 a b c w by simp_all
  have "(Inr m, s') = (Inr (vec_list (fsub a w) @ [0] @ vec_list (fsub b w) @ [0] @
               vec_list (fsub c w) @ [0] @ vec_list w @ [0]), s)"
    using matrixFromLocators_rows[OF qs] assms by simp
  then have e: "s' = s" "m = vec_list (fsub a w) @ [0] @ vec_list (fsub b w) @ [0] @
               vec_list (fsub c w) @ [0] @ vec_list w @ [0]" by simp_all
  show ?thesis
    apply (rule conjI[OF e(1)])
    apply (rule exI[of _ a], rule exI[of _ b], rule exI[of _ c], rule exI[of _ w])
    using qs e(2) apply simp
    done
qed

subsection \<open>Names and paths\<close>

lemma py_split_nonempty: "py_split c s \<noteq> []"
  by (induction s) (auto split: list.splits)

lemma py_split_append:
  "c \<notin> set n \<Longrightarrow> py_split c (n @ r) = (n @ hd (py_split c r)) # tl (py_split c r)"
proof (induction n)
  case Nil
  then show ?case using py_split_nonempty[of c r] by (cases "py_split c r") auto
next
  case (Cons a n)
  then show ?case by (auto split: list.splits)
qed

lemma py_split_name_of_path:
  "list_all (\<lambda>n. CHR ''|'' \<notin> set n) p \<Longrightarrow> py_split CHR ''|'' (name_of_path p) = [] # p"
proof (induction p)
  case Nil
  then show ?case by (simp add: name_of_path_def)
next
  case (Cons a p)
  then have ih: "py_split CHR ''|'' (name_of_path p) = [] # p"
    by simp
  have "name_of_path (a # p) = CHR ''|'' # a @ name_of_path p"
    by (simp add: name_of_path_def)
  moreover have "py_split CHR ''|'' (a @ name_of_path p) = a # p"
    using Cons.prems ih by (simp add: py_split_append)
  ultimately show ?case by simp
qed

lemma valid_path_no_bar: "valid_path p \<Longrightarrow> list_all (\<lambda>n. CHR ''|'' \<notin> set n) p"
  by (auto simp: valid_path_def valid_name_def list_all_iff)

lemma path_of_name_of_path: "valid_path p \<Longrightarrow> path_of_name (name_of_path p) = Some p"
  using py_split_name_of_path[OF valid_path_no_bar, of p]
  by (auto simp: path_of_name_def valid_path_def valid_name_def list_all_iff)




lemma resolve_name: 
  "valid_path p \<Longrightarrow> lookup s p = Some n \<Longrightarrow> resolve s (name_of_path p) = Some (p, n)"
  by (simp add: resolve_def path_of_name_of_path)


lemma resolve_SomeD:
  "resolve s name = Some (p, n) \<Longrightarrow> path_of_name name = Some p \<and> lookup s p = Some n"
  by (auto simp: resolve_def split: option.splits)






subsection \<open>The undo log\<close>

lemma keeps_logI: "(\<And>s r s'. m s = (r, s') \<Longrightarrow> undo_log s' = undo_log s) \<Longrightarrow> keeps_log m"
  by (simp add: keeps_log_def)

lemma keeps_logD: "keeps_log m \<Longrightarrow> m s = (r, s') \<Longrightarrow> undo_log s' = undo_log s"
  by (simp add: keeps_log_def)

lemma keeps_log_thn [intro!]:
  assumes "keeps_log m" and "\<And>x. keeps_log (f x)"
  shows "keeps_log (thn m f)"
proof (rule keeps_logI)
  fix s r s' assume a: "thn m f s = (r, s')"
  obtain r1 s1 where m: "m s = (r1, s1)" by (cases "m s")
  show "undo_log s' = undo_log s"
  proof (cases r1)
    case (Inl e)
    with a m have "s' = s1" by (simp add: thn_def)
    then show ?thesis using keeps_logD[OF assms(1) m] by simp
  next
    case (Inr x)
    with a m have "f x s1 = (r, s')" by (simp add: thn_def)
    then show ?thesis using keeps_logD[OF assms(2)] keeps_logD[OF assms(1) m] by simp
  qed
qed

lemma keeps_log_ret [intro!, simp]: "keeps_log (ret x)"
  by (simp add: keeps_log_def ret_def)

lemma keeps_log_raise [intro!, simp]: "keeps_log (raise e)"
  by (simp add: keeps_log_def raise_def)

lemma keeps_log_if [intro!]: "keeps_log a \<Longrightarrow> keeps_log b \<Longrightarrow> keeps_log (if c then a else b)"
  by simp

lemma keeps_log_error [intro!, simp]: "keeps_log (cmds_error msg)"
  by (simp add: cmds_error_def)

lemma keeps_log_idx0 [intro!, simp]: "keeps_log (idx0 xs)"
  by (cases xs) (simp_all add: idx0_def)

lemma undo_log_update_node [simp]: "undo_log (update_node p f s) = undo_log s"
  by (simp add: update_node_def)

lemma undo_log_move_subtree [simp]: "undo_log (move_subtree c c' s) = undo_log s"
  by (simp add: move_subtree_def)

lemma keeps_log_ls_sl [intro!, simp]: "keeps_log cmds_ls_sl_transform"
  by (simp add: keeps_log_def cmds_ls_sl_transform_def)

lemma keeps_log_ls_pattern [intro!, simp]: "keeps_log (cmds_ls_pattern_sl_transform pat)"
  by (auto simp: keeps_log_def cmds_ls_pattern_sl_transform_def split: option.splits)

lemma keeps_log_objExists [intro!, simp]: "keeps_log (cmds_objExists name)"
  by (auto simp: keeps_log_def cmds_objExists_def split: option.splits if_splits)

lemma keeps_log_create_root [intro!, simp]: "keeps_log (create_root name)"
  by (auto simp: keeps_log_def create_root_def split: option.splits)

lemma keeps_log_parent_one [intro!, simp]: "keeps_log (parent_one c t)"
  by (auto simp: keeps_log_def parent_one_def split: option.splits if_splits)

lemma keeps_log_parent_all [intro!, simp]: "keeps_log (parent_all cs t)"
  by (induction cs) auto

lemma keeps_log_select_names [intro!, simp]: "keeps_log (select_names ns)"
  by (simp add: keeps_log_def select_names_def)

lemma keeps_log_parent_world [intro!, simp]: "keeps_log (cmds_parent_world cs)"
  unfolding cmds_parent_world_def by auto

lemma keeps_log_parent [intro!, simp]: "keeps_log (cmds_parent cs t)"
proof (rule keeps_logI)
  fix s r s' assume a: "cmds_parent cs t s = (r, s')"
  show "undo_log s' = undo_log s"
  proof (cases "resolve s t")
    case None
    with a show ?thesis by (simp add: cmds_parent_def)
  next
    case (Some pn)
    obtain p n where "pn = (p, n)" by (cases pn)
    with a Some have "thn (parent_all cs p) (\<lambda>rs. thn (select_names rs) (\<lambda>_. ret rs)) s = (r, s')"
      by (simp add: cmds_parent_def)
    moreover have "keeps_log (thn (parent_all cs p) (\<lambda>rs. thn (select_names rs) (\<lambda>_. ret rs)))"
      by auto
    ultimately show ?thesis by (rule keeps_logD[rotated])
  qed
qed

lemma keeps_log_spaceLocator [intro!, simp]: "keeps_log (cmds_spaceLocator name)"
  unfolding cmds_spaceLocator_def by auto

lemma keeps_log_group [intro!, simp]: "keeps_log (cmds_group_em name)"
  unfolding cmds_group_em_def by auto

lemma keeps_log_make_locator [intro!, simp]: "keeps_log (make_locator name t)"
  unfolding make_locator_def by auto

lemma keeps_log_setAttr_double3 [intro!, simp]: "keeps_log (cmds_setAttr_double3 plug x y z)"
  by (auto simp: keeps_log_def cmds_setAttr_double3_def split: option.splits if_splits)

lemma keeps_log_setAttr_lock [intro!, simp]: "keeps_log (cmds_setAttr_lock plug b)"
  by (auto simp: keeps_log_def cmds_setAttr_lock_def split: option.splits if_splits)

lemma keeps_log_lockNode [intro!, simp]: "keeps_log (cmds_lockNode name b)"
  by (auto simp: keeps_log_def cmds_lockNode_def split: option.splits)

lemma keeps_log_hide [intro!, simp]: "keeps_log (cmds_hide names)"
proof (induction names)
  case Nil
  show ?case by (simp add: cmds_hide.simps)
next
  case (Cons a names)
  show ?case
  proof (rule keeps_logI)
    fix s r s' assume a: "cmds_hide (a # names) s = (r, s')"
    then show "undo_log s' = undo_log s"
      using keeps_logD[OF Cons] by (auto simp: cmds_hide.simps split: option.splits)
  qed
qed

lemma keeps_log_addAttr [intro!, simp]: "keeps_log (cmds_addAttr name)"
  by (auto simp: keeps_log_def cmds_addAttr_def split: option.splits if_splits)

lemma keeps_log_deleteAttr [intro!, simp]: "keeps_log (cmds_deleteAttr name a)"
  by (auto simp: keeps_log_def cmds_deleteAttr_def split: option.splits if_splits)

lemma keeps_log_setAttr_string [intro!, simp]: "keeps_log (cmds_setAttr_string plug v)"
  by (auto simp: keeps_log_def cmds_setAttr_string_def split: option.splits if_splits)

lemma keeps_log_duplicate [intro!, simp]: "keeps_log (cmds_duplicate name)"
  by (auto simp: keeps_log_def cmds_duplicate_def Let_def split: option.splits)

lemma keeps_log_lockTransform [intro!, simp]: "keeps_log (lockTransform node)"
  unfolding lockTransform_def by auto

lemma keeps_log_unlockTransform [intro!, simp]: "keeps_log (unlockTransform node)"
  unfolding unlockTransform_def by auto

lemma keeps_log_addIdentifier [intro!, simp]: "keeps_log (addIdentifier node i)"
  unfolding addIdentifier_def by auto

lemma keeps_log_attach [intro!, simp]: "keeps_log (attach_locators sel0)"
  unfolding attach_locators_def by auto

lemma keeps_log_ensure [intro!, simp]: "keeps_log ensure_originals"
  unfolding ensure_originals_def by auto

lemma keeps_log_publish_steps [intro!, simp]: "keeps_log publish_steps"
  unfolding publish_steps_def by auto

lemma keeps_log_instantiate_try [intro!, simp]: "keeps_log (instantiateOriginal_try original)"
  unfolding instantiateOriginal_try_def by (cases original) auto

lemma instantiateOriginal_log:
  assumes "instantiateOriginal original s = (r, s')"
  shows "undo_log s' = undo_log s @ (case r of Inl _ \<Rightarrow> [OpenChunk, CloseChunk, Undo]
                                      | Inr _ \<Rightarrow> [OpenChunk, CloseChunk])"
proof -
  let ?s0 = "s\<lparr>undo_log := undo_log s @ [OpenChunk]\<rparr>"
  obtain r1 s1 where t: "instantiateOriginal_try original ?s0 = (r1, s1)"
    by (cases "instantiateOriginal_try original ?s0")
  have l: "undo_log s1 = undo_log s @ [OpenChunk]"
    using keeps_logD[OF keeps_log_instantiate_try t] by simp
  show ?thesis
    using assms t l
    by (cases r1)
       (auto simp: instantiateOriginal_def thn_def cmds_undoInfo_openChunk_def
          cmds_undoInfo_closeChunk_def cmds_undo_def raise_def ret_def)
qed

subsection \<open>Runs on given scenes\<close>

lemma thn_cont: "thn m f s = cont (m s) f"
proof (cases "m s")
  case (Pair r s')
  then show ?thesis by (cases r) (simp_all add: thn_def)
qed

text \<open>The definitions a run on a given scene unfolds.\<close>

lemmas run_defs =
  thn_cont ret_def raise_def idx0_def
  py_rsplit1_def py_split1_def startswith_def shortName_def
  name_of_path_def path_of_name_def lookup_def resolve_def resolve_plug_def beneath_def rekey_def
  child_names_def update_node_def unique_name_def stem_def digits_def digit_char_def
  world_def node_pattern_of_def is_transform_def is_ident_attr_def
  cmds_ls_sl_transform_def cmds_ls_pattern_sl_transform_def cmds_ls_attr_def cmds_objExists_def
  cmds_getAttr_def cmds_xform_q_ws_m_def cmds_xform_q_ws_rp_def cmds_error_def new_node_def
  create_root_def cmds_spaceLocator_def cmds_group_em_def move_subtree_def parent_one_def
  select_names_def cmds_parent_def cmds_parent_world_def cmds_setAttr_double3_def
  cmds_setAttr_lock_def cmds_lockNode_def cmds_hide.simps cmds_addAttr_def cmds_deleteAttr_def
  cmds_setAttr_string_def cmds_duplicate_def cmds_xform_ws_m.simps cmds_delete_def
  remove_subtree_def cmds_rename_def
  cmds_undoInfo_openChunk_def cmds_undoInfo_closeChunk_def cmds_undo_def
  lockTransform_def unlockTransform_def addIdentifier_def select_one_msg_def
  instantiateOriginal_try_def instantiateOriginal_def make_locator_def attach_locators_def
  ensure_originals_def publish_steps_def initializeOriginal_try_def initializeOriginal_def
  findOriginal_def isub_def matrixFromLocators_def select_two_msg_def missing_identifier_msg_def
  not_found_msg_def replace_instance_def update_original_def updateOriginalAndInstances_def
  vadd_def vsub_def vscale_def identity_def lin_apply_def apply_point_def compose_def cross_def
  dot_def det_def inverse_affine_def vec_list_def matrix_list_def affine_of_list_def
  vfl_def fsub_def List.map_filter_def Let_def locator_node_def

section \<open>The matrix sampled from the locators\<close>

text \<open>
  Claim C2. The claim asks that the matrix returned by \<open>matrixFromLocators\<close> has
  the fourth column \<open>(0, 0, 0, 1)\<close>. The source appends \<open>0.0\<close> to all four rows, the
  translation row included: whenever the function returns, the result has 16 entries
  and the entries 3, 7, 11 and 15 are all 0, so the entry 15 is not 1.
\<close>

theorem matrixFromLocators_fourth_column: 
  assumes "matrixFromLocators node s = (Inr m, s')"
  shows "length m = 16 \<and> m ! 3 = 0 \<and> m ! 7 = 0 \<and> m ! 11 = 0 \<and> m ! 15 = 0"
proof -
  from matrixFromLocators_InrD[OF assms] obtain a b c w where
    m: "m = vec_list (fsub a w) @ [0] @ vec_list (fsub b w) @ [0] @
               vec_list (fsub c w) @ [0] @ vec_list w @ [0]" by blast
  show ?thesis unfolding m
    by (cases "fsub a w"; cases "fsub b w"; cases "fsub c w"; cases w) (simp add: vec_list_def)
qed

theorem matrixFromLocators_fourth_column_witness:
  "matrixFromLocators ''|Pillar'' (framed_pillar identity) =
     (Inr [1, 0, 0, 0, 0, 1, 0, 0, 0, 0, 1, 0, 0, 0, 0, 0], framed_pillar identity) \<and>
   [1, 0, 0, 0, 0, 1, 0, 0, 0, 0, 1, 0, 0, 0, 0, 0 :: real] ! 15 = 0"
proof -
  have e: "matrixFromLocators ''|Pillar'' (framed_pillar identity) =
     (Inr [1, 0, 0, 0, 0, 1, 0, 0, 0, 0, 1, 0, 0, 0, 0, 0], framed_pillar identity)"
    by (simp add: run_defs framed_pillar_def)
  from matrixFromLocators_fourth_column[OF e] e show ?thesis by simp
qed

section \<open>Attaching the locators\<close>

text \<open>
  Claim C4. The claim asks that right after the locators are attached, whatever the
  world transform of the selected transform, \<open>X\<close>, \<open>Y\<close> and \<open>Z\<close> are at the unit
  offsets from \<open>Zero\<close> in the local space. The source sets the local positions of
  \<open>X\<close>, \<open>Y\<close> and \<open>Z\<close> and never that of \<open>Zero\<close>, which is made at the world origin and
  keeps its world position when it is parented. For \<open>Pillar\<close> translated by
  \<open>(5, 0, 0)\<close> the local position of \<open>Zero\<close> is \<open>(-5, 0, 0)\<close>, and \<open>X\<close> minus \<open>Zero\<close>
  is \<open>(6, 0, 0)\<close>.
\<close>

theorem attach_locators_off_origin:
  "(case attach_locators ''|Pillar'' (pillar_at (5, 0, 0)) of
      (r, s) \<Rightarrow>
        (r, map_option (\<lambda>n. tr (xf n)) (lookup s [''Pillar'', ''Zero'']),
            map_option (\<lambda>n. tr (xf n)) (lookup s [''Pillar'', ''X'']),
            map_option (\<lambda>n. tr (xf n)) (lookup s [''Pillar'', ''Y'']),
            map_option (\<lambda>n. tr (xf n)) (lookup s [''Pillar'', ''Z''])))
   = (Inr (), Some (- 5, 0, 0), Some (1, 0, 0), Some (0, 1, 0), Some (0, 0, 1))"
  by code_simp

section \<open>Undo in publish-first\<close>

text \<open>
  Claim C7, as amended. When \<open>initializeOriginal\<close> fails, the error it raises is the
  error of its \<open>try\<close> block, and the scene it leaves is the scene the \<open>try\<close> block
  left, with the chunk closed: nothing is undone by \<open>initializeOriginal\<close>. When the
  failing step is one before the call of \<open>instantiateOriginal\<close>, the log gets the
  opening and the closing of the chunk and no undo, and the nodes are those the failing
  step left. The one undo of the tool is in \<open>instantiateOriginal\<close>: when its
  \<open>try\<close> block fails it closes its chunk, runs one undo and raises the same error.
\<close>

theorem publish_first_failure:
  "(initializeOriginal s = (Inl e, s') \<longrightarrow>
      (\<exists>s1. initializeOriginal_try (s\<lparr>undo_log := undo_log s @ [OpenChunk]\<rparr>) = (Inl e, s1) \<and>
            s' = s1\<lparr>undo_log := undo_log s1 @ [CloseChunk]\<rparr> \<and>
            (\<forall>e0 s0. publish_steps (s\<lparr>undo_log := undo_log s @ [OpenChunk]\<rparr>) = (Inl e0, s0) \<longrightarrow>
                e = e0 \<and> s' = s0\<lparr>undo_log := undo_log s @ [OpenChunk, CloseChunk]\<rparr>))) \<and>
   (instantiateOriginal original t = (Inl e', t') \<longrightarrow>
      (\<exists>t1. instantiateOriginal_try original (t\<lparr>undo_log := undo_log t @ [OpenChunk]\<rparr>) = (Inl e', t1) \<and>
            t' = t1\<lparr>undo_log := undo_log t @ [OpenChunk, CloseChunk, Undo]\<rparr>))"
proof (intro conjI impI)
  let ?s0 = "s\<lparr>undo_log := undo_log s @ [OpenChunk]\<rparr>"
  assume a: "initializeOriginal s = (Inl e, s')"
  obtain r1 s1 where t: "initializeOriginal_try ?s0 = (r1, s1)"
    by (cases "initializeOriginal_try ?s0")
  from a t have r1: "r1 = Inl e" and s': "s' = s1\<lparr>undo_log := undo_log s1 @ [CloseChunk]\<rparr>"
    by (cases r1; simp add: initializeOriginal_def thn_def cmds_undoInfo_openChunk_def
          cmds_undoInfo_closeChunk_def raise_def ret_def)+
  have p: "e = e0 \<and> s' = s0\<lparr>undo_log := undo_log s @ [OpenChunk, CloseChunk]\<rparr>"
    if q: "publish_steps ?s0 = (Inl e0, s0)" for e0 s0
  proof -
    have "initializeOriginal_try ?s0 = (Inl e0, s0)"
      using q by (simp add: initializeOriginal_try_def thn_def)
    with t r1 have "e = e0" "s1 = s0" by simp_all
    moreover have "undo_log s0 = undo_log s @ [OpenChunk]"
      using keeps_logD[OF keeps_log_publish_steps q] by simp
    ultimately show ?thesis using s' by simp
  qed
  show "\<exists>s1. initializeOriginal_try ?s0 = (Inl e, s1) \<and>
            s' = s1\<lparr>undo_log := undo_log s1 @ [CloseChunk]\<rparr> \<and>
            (\<forall>e0 s0. publish_steps ?s0 = (Inl e0, s0) \<longrightarrow>
                e = e0 \<and> s' = s0\<lparr>undo_log := undo_log s @ [OpenChunk, CloseChunk]\<rparr>)"
    apply (rule exI[of _ s1])
    using t r1 s' p apply simp
    done
next
  let ?t0 = "t\<lparr>undo_log := undo_log t @ [OpenChunk]\<rparr>"
  assume a: "instantiateOriginal original t = (Inl e', t')"
  obtain r1 t1 where t: "instantiateOriginal_try original ?t0 = (r1, t1)"
    by (cases "instantiateOriginal_try original ?t0")
  have l: "undo_log t1 = undo_log t @ [OpenChunk]"
    using keeps_logD[OF keeps_log_instantiate_try t] by simp
  from a t l have "r1 = Inl e'" and "t' = t1\<lparr>undo_log := undo_log t @ [OpenChunk, CloseChunk, Undo]\<rparr>"
    by (cases r1; simp add: instantiateOriginal_def thn_def cmds_undoInfo_openChunk_def
          cmds_undoInfo_closeChunk_def cmds_undo_def raise_def ret_def)+
  with t show "\<exists>t1. instantiateOriginal_try original ?t0 = (Inl e', t1) \<and>
            t' = t1\<lparr>undo_log := undo_log t @ [OpenChunk, CloseChunk, Undo]\<rparr>"
    by simp
qed

theorem publish_first_failure_witness:
  "initializeOriginal originals_selected =
     (Inl (HostError BadParent), locators_left\<lparr>undo_log := [OpenChunk, CloseChunk]\<rparr>) \<and>
   publish_steps (originals_selected\<lparr>undo_log := undo_log originals_selected @ [OpenChunk]\<rparr>) =
     (Inl (HostError BadParent), locators_left) \<and>
   instantiateOriginal None originals_selected =
     (Inl (CmdsError select_one_msg),
      originals_selected\<lparr>undo_log := [OpenChunk, CloseChunk, Undo]\<rparr>) \<and>
   instantiateOriginal_try None (originals_selected\<lparr>undo_log := undo_log originals_selected @ [OpenChunk]\<rparr>) =
     (Inl (CmdsError select_one_msg), originals_selected\<lparr>undo_log := [OpenChunk]\<rparr>)"
proof -
  let ?s0 = "originals_selected\<lparr>undo_log := undo_log originals_selected @ [OpenChunk]\<rparr>"
  have i: "initializeOriginal originals_selected =
     (Inl (HostError BadParent), locators_left\<lparr>undo_log := [OpenChunk, CloseChunk]\<rparr>)"
    by (simp add: run_defs originals_selected_def locators_left_def)
  have p: "publish_steps ?s0 = (Inl (HostError BadParent), locators_left)"
    by (simp add: run_defs originals_selected_def locators_left_def)
  have j: "instantiateOriginal None originals_selected =
     (Inl (CmdsError select_one_msg), originals_selected\<lparr>undo_log := [OpenChunk, CloseChunk, Undo]\<rparr>)"
    by (simp add: run_defs originals_selected_def)
  have u: "undo_log originals_selected = []" by (simp add: originals_selected_def)
  from publish_first_failure[of originals_selected "HostError BadParent"
      "locators_left\<lparr>undo_log := [OpenChunk, CloseChunk]\<rparr>" None originals_selected
      "CmdsError select_one_msg" "originals_selected\<lparr>undo_log := [OpenChunk, CloseChunk, Undo]\<rparr>"] i j
  obtain t1 where t1: "instantiateOriginal_try None ?s0 = (Inl (CmdsError select_one_msg), t1)"
    and t1': "originals_selected\<lparr>undo_log := [OpenChunk, CloseChunk, Undo]\<rparr>
               = t1\<lparr>undo_log := undo_log originals_selected @ [OpenChunk, CloseChunk, Undo]\<rparr>"
    by blast
  have l: "undo_log t1 = [OpenChunk]"
    using keeps_logD[OF keeps_log_instantiate_try t1] u by simp
  from t1' have "originals_selected\<lparr>undo_log := [OpenChunk]\<rparr> = t1\<lparr>undo_log := [OpenChunk]\<rparr>"
    by (cases t1) (simp add: originals_selected_def)
  with l have "t1 = originals_selected\<lparr>undo_log := [OpenChunk]\<rparr>" by (cases t1) simp
  with t1 i p j show ?thesis by simp
qed

text \<open>
  The claim as stated fails: with the group of the originals selected, the four
  locators are made under it, the parenting of the group under itself fails, and
  \<open>initializeOriginal\<close> closes the chunk and raises the error; the log has no undo,
  and the locators stay in the scene.
\<close>

theorem initializeOriginal_no_undo:
  "(case initializeOriginal originals_selected of
      (r, s) \<Rightarrow> (r, undo_log s, map fst (nodes s)))
   = (Inl (HostError BadParent), [OpenChunk, CloseChunk],
      [[''Originals''], [''Originals'', ''Zero''], [''Originals'', ''X''],
       [''Originals'', ''Y''], [''Originals'', ''Z'']])"
  by code_simp

section \<open>Looking up the original\<close>

lemma lookup_member: "wf_scene s \<Longrightarrow> (p, n) \<in> set (nodes s) \<Longrightarrow> lookup s p = Some n"
  by (simp add: wf_scene_def lookup_def)

lemma wf_valid_path: "wf_scene s \<Longrightarrow> (p, n) \<in> set (nodes s) \<Longrightarrow> valid_path p"
  by (auto simp: wf_scene_def list_all_iff)

lemma no_dot_name_of_path: "valid_path p \<Longrightarrow> CHR ''.'' \<notin> set (name_of_path p)"
  by (auto simp: valid_path_def valid_name_def list_all_iff name_of_path_def)

lemma py_split1_plug: "CHR ''.'' \<notin> set a \<Longrightarrow> py_split1 CHR ''.'' (a @ CHR ''.'' # r) = [a, r]"
  by (induction a) (auto simp: py_split1_def)

lemma resolve_plug_name:
  assumes "valid_path p" "lookup s p = Some n"
  shows "resolve_plug s (name_of_path p @ CHR ''.'' # a) = Some (p, n, a)"
  using assms by (simp add: resolve_plug_def py_split1_plug no_dot_name_of_path resolve_name)

lemma getAttr_ident:
  assumes "valid_path p" "lookup s p = Some n" "ident n = Some v"
  shows "cmds_getAttr (name_of_path p @ ''.identifier'') s = (Inr v, s)"
  using resolve_plug_name[OF assms(1,2), of "''identifier''"] assms(3)
  by (simp add: cmds_getAttr_def is_ident_attr_def)

lemma node_pattern_store: "node_pattern_of ''|Originals|*'' = Some (ChildrenOf [''Originals''])"
  by (simp add: node_pattern_of_def path_of_name_def)

lemma ls_attr_store:
  "cmds_ls_attr ''|Originals|*.identifier'' s =
     (Inr (map (\<lambda>e. name_of_path (fst e) @ ''.identifier'')
            (filter (\<lambda>e. in_store (fst e) \<and> ident (snd e) \<noteq> None) (nodes s))), s)"
proof -
  have "py_split1 CHR ''.'' ''|Originals|*.identifier'' = [''|Originals|*'', ''identifier'']"
    by (simp add: py_split1_def)
  then show ?thesis
    by (simp add: cmds_ls_attr_def node_pattern_store is_ident_attr_def in_store_def)
qed

lemma findOriginal_loop_none:
  assumes "wf_scene s"
  shows "set es \<subseteq> set (nodes s) \<Longrightarrow>
         list_all (\<lambda>e. ident (snd e) \<noteq> None \<and> ident (snd e) \<noteq> Some identifier) es \<Longrightarrow>
         findOriginal_loop identifier (map (\<lambda>e. name_of_path (fst e) @ ''.identifier'') es) s
           = (Inr None, s)"
proof (induction es)
  case Nil
  then show ?case by (simp add: ret_def)
next
  case (Cons e es)
  obtain p n where e: "e = (p, n)" by (cases e)
  from Cons.prems e obtain v where v: "ident n = Some v" "v \<noteq> identifier" by auto
  from Cons.prems e have m: "(p, n) \<in> set (nodes s)" by simp
  have g: "cmds_getAttr (name_of_path p @ ''.identifier'') s = (Inr v, s)"
    using getAttr_ident[OF wf_valid_path[OF assms m] lookup_member[OF assms m] v(1)] .
  show ?case using Cons e v g by (simp add: thn_def)
qed

lemma findOriginal_none:
  assumes "wf_scene s" "no_canonical_with s identifier"
  shows "findOriginal identifier s = (Inr None, s)"
proof -
  let ?es = "filter (\<lambda>e. in_store (fst e) \<and> ident (snd e) \<noteq> None) (nodes s)"
  have a: "set ?es \<subseteq> set (nodes s)" by auto
  have b: "list_all (\<lambda>e. ident (snd e) \<noteq> None \<and> ident (snd e) \<noteq> Some identifier) ?es"
    using assms(2) by (auto simp: no_canonical_with_def list_all_iff)
  show ?thesis
    using findOriginal_loop_none[OF assms(1) a b]
    by (simp add: findOriginal_def thn_def ls_attr_store)
qed

lemma ls_sl_transform_state: "cmds_ls_sl_transform s = (fst (cmds_ls_sl_transform s), s)"
  by (simp add: cmds_ls_sl_transform_def)

lemma objExists_state: "cmds_objExists name s = (fst (cmds_objExists name s), s)"
  by (auto simp: cmds_objExists_def split: option.splits)

lemma getAttr_state: "cmds_getAttr plug s = (fst (cmds_getAttr plug s), s)"
  by (auto simp: cmds_getAttr_def split: option.splits)

lemma duplicate_singleton: "cmds_duplicate name s = (Inr d, s') \<Longrightarrow> \<exists>x. d = [x]"
  by (auto simp: cmds_duplicate_def Let_def split: option.splits)

text \<open>
  Claim C8. When no tagged node in the group of the originals carries the identifier,
  \<open>findOriginal\<close> returns \<open>None\<close> and leaves the scene as it is; and
  \<open>updateOriginalAndInstances\<close>, once it has validated the selection, duplicated the
  new transform and read the identifier, raises its error at that point: the scene it
  leaves is the one in which the lookup was made.
\<close>

theorem update_fails_without_original:
  assumes sel: "fst (cmds_ls_sl_transform s) = Inr [a, b]"
      and ex: "fst (cmds_objExists (b @ ''.identifier'') s) = Inr True"
      and dup: "cmds_duplicate a s = (Inr d, s1)"
      and ga: "fst (cmds_getAttr (b @ ''.identifier'') s1) = Inr identifier"
      and wf: "wf_scene s1"
      and none: "no_canonical_with s1 identifier"
  shows "findOriginal identifier s1 = (Inr None, s1) \<and>
         updateOriginalAndInstances s = (Inl (CmdsError (not_found_msg identifier)), s1)"
proof -
  have f: "findOriginal identifier s1 = (Inr None, s1)"
    using findOriginal_none[OF wf none] .
  have 1: "cmds_ls_sl_transform s = (Inr [a, b], s)"
    using ls_sl_transform_state[of s] sel by simp
  have 2: "cmds_objExists (b @ ''.identifier'') s = (Inr True, s)"
    using objExists_state[of "b @ ''.identifier''" s] ex by simp
  obtain x where d: "d = [x]" using duplicate_singleton[OF dup] by blast
  have 4: "cmds_getAttr (b @ ''.identifier'') s1 = (Inr identifier, s1)"
    using getAttr_state[of "b @ ''.identifier''" s1] ga by simp
  have "update_original s = (Inl (CmdsError (not_found_msg identifier)), s1)"
    using 1 2 dup 4 f d
    by (simp add: update_original_def thn_def ret_def idx0_def cmds_error_def raise_def)
  then show ?thesis using f by (simp add: updateOriginalAndInstances_def thn_def)
qed

theorem update_fails_without_original_witness:
  "findOriginal ''Pillar'' two_tagged_dup = (Inr None, two_tagged_dup) \<and>
   updateOriginalAndInstances two_tagged =
     (Inl (CmdsError ''Unexpected error, could not find original object with Pillar.''),
      two_tagged_dup)"
proof -
  have sel: "fst (cmds_ls_sl_transform two_tagged) = Inr [''|New'', ''|Old'']"
    by code_simp
  have ex: "fst (cmds_objExists (''|Old'' @ ''.identifier'') two_tagged) = Inr True"
    by code_simp
  have dup: "cmds_duplicate ''|New'' two_tagged = (Inr [''|New1''], two_tagged_dup)"
    by code_simp
  have ga: "fst (cmds_getAttr (''|Old'' @ ''.identifier'') two_tagged_dup) = Inr ''Pillar''"
    by code_simp
  have wf: "wf_scene two_tagged_dup"
    by code_simp
  have none: "no_canonical_with two_tagged_dup ''Pillar''"
    by code_simp
  from update_fails_without_original[OF sel ex dup ga wf none]
  show ?thesis by (simp add: not_found_msg_def)
qed

section \<open>Runs on the example scenes\<close>



text \<open>
  Claim C1. The claim asks that after a publish-update every instance is replaced by
  one at the same path, with the same name and the same world pose. In the scene that
  publish-first makes of a transform translated by \<open>(5, 0, 0)\<close>, the instance
  \<open>|Pillar1\<close> has that translation as its world pose. After the publish-update of a
  new version the node at \<open>|Pillar1\<close> has the world matrix with the rows
  \<open>(6, 0, 0)\<close>, \<open>(5, 1, 0)\<close>, \<open>(5, 0, 1)\<close> and \<open>(0, 0, 0)\<close>: the pose sampled from
  the locators, whose \<open>Zero\<close> is not at the local origin.
\<close>

theorem update_moves_instance:
  "(case updateOriginalAndInstances republish_5 of
      (r, s) \<Rightarrow>
        (r, matrix_list (world republish_5 [''Pillar1'']), matrix_list (world s [''Pillar1''])))
   = (Inr (), [1, 0, 0, 0, 0, 1, 0, 0, 0, 0, 1, 0, 5, 0, 0, 1],
              [6, 0, 0, 0, 5, 1, 0, 0, 5, 0, 1, 0, 0, 0, 0, 1])"
  by (simp add: run_defs republish_5_def published_5_def)

text \<open>
  A publish-update that deletes a node tagged with another identifier: the instance
  \<open>Chair1\<close> is parented under the instance \<open>Pillar1\<close>, and goes with it when
  \<open>Pillar1\<close> is deleted and replaced.
\<close>

theorem update_deletes_nested_instance:
  "(case updateOriginalAndInstances nested of
      (r, s) \<Rightarrow>
        (r, map_option ident (lookup nested [''Pillar1'', ''Chair1'']),
            lookup s [''Pillar1'', ''Chair1'']))
   = (Inr (), Some (Some ''Chair''), None)"
  by (simp add: run_defs nested_def)

section \<open>Scene trees\<close>

subsection \<open>Paths\<close>

lemma beneath_refl [simp]: "beneath c c"
  by (simp add: beneath_def)

lemma beneath_append [simp]: "beneath c (c @ r)"
  by (simp add: beneath_def)

lemma beneath_Nil [simp]: "beneath [] q"
  by (simp add: beneath_def)

lemma beneath_decomp: "beneath c q \<Longrightarrow> q = c @ drop (length c) q"
  using append_take_drop_id[of "length c" q] by (simp add: beneath_def)

lemma beneath_iff: "beneath c q \<longleftrightarrow> (\<exists>r. q = c @ r)"
  using beneath_decomp by auto


lemma beneath_trans: "beneath a b \<Longrightarrow> beneath b c \<Longrightarrow> beneath a c"
  by (auto simp: beneath_iff)

lemma beneath_antisym: "beneath a b \<Longrightarrow> beneath b a \<Longrightarrow> a = b"
  by (auto simp: beneath_iff)


lemma beneath_butlast_self: "q \<noteq> [] \<Longrightarrow> beneath (butlast q) q"
  using beneath_append[of "butlast q" "[last q]"] by simp


lemma beneath_snoc: "beneath (t @ [x]) q \<Longrightarrow> beneath t q"
  by (auto simp: beneath_iff)

lemma rekey_beneath: "beneath c q \<Longrightarrow> rekey c c' q = c' @ drop (length c) q"
  by (simp add: rekey_def)


lemma rekey_self [simp]: "rekey c c' c = c'"
  by (simp add: rekey_def)

lemma rekey_append [simp]: "rekey c c' (c @ r) = c' @ r"
  by (simp add: rekey_def)

lemma rekey_same [simp]: "rekey c c q = q"
  using beneath_decomp[of c q] by (simp add: rekey_def)

subsection \<open>Keys and lookup\<close>




lemma lookup_in_nodes: "lookup s q = Some v \<Longrightarrow> (q, v) \<in> set (nodes s)"
  by (simp add: lookup_def map_of_SomeD)

lemma wf_scene_keys: "wf_scene s \<longleftrightarrow> distinct (keys s) \<and> list_all valid_path (keys s)"
  by (simp add: wf_scene_def keys_def list_all_iff)



lemma closed_parent:
  "closed_keys s \<Longrightarrow> k \<in> set (keys s) \<Longrightarrow> 1 < length k \<Longrightarrow> butlast k \<in> set (keys s)"
  by (auto simp: closed_keys_def list_all_iff)




subsection \<open>Updating a node\<close>

lemma keys_update_node [simp]: "keys (update_node c f s) = keys s"
  by (simp add: keys_def update_node_def comp_def if_distrib cong: if_cong)

lemma lookup_update_node:
  "lookup (update_node c f s) q = (if q = c then map_option f (lookup s q) else lookup s q)"
proof -
  have "map_of (map (\<lambda>e. if fst e = c then (fst e, f (snd e)) else e) xs) q =
        (if q = c then map_option f (map_of xs q) else map_of xs q)" for xs
    by (induction xs) auto
  then show ?thesis by (simp add: lookup_def update_node_def)
qed

lemma wf_scene_update_node [simp]: "wf_scene (update_node c f s) = wf_scene s"
  by (simp add: wf_scene_keys)

lemma closed_keys_update_node [simp]: "closed_keys (update_node c f s) = closed_keys s"
  by (simp add: closed_keys_def)

lemma wf_tree_update_node [simp]: "wf_tree (update_node c f s) = wf_tree s"
  by (simp add: wf_tree_def)

subsection \<open>Removing a subtree\<close>

lemma keys_remove_subtree: "keys (remove_subtree p s) = filter (\<lambda>k. \<not> beneath p k) (keys s)"
  by (simp add: keys_def remove_subtree_def filter_map comp_def)

lemma lookup_remove_subtree:
  "lookup (remove_subtree p s) q = (if beneath p q then None else lookup s q)"
proof -
  have "map_of (filter (\<lambda>e. \<not> beneath p (fst e)) xs) q = (if beneath p q then None else map_of xs q)" for xs
    by (induction xs) auto
  from this[of "nodes s"] show ?thesis by (simp add: lookup_def remove_subtree_def)
qed

lemma wf_tree_remove_subtree:
  assumes "wf_tree s"
  shows "wf_tree (remove_subtree p s)"
proof -
  have d: "distinct (keys (remove_subtree p s))" and v: "list_all valid_path (keys (remove_subtree p s))"
    using assms by (auto simp: wf_tree_def wf_scene_keys keys_remove_subtree list_all_iff)
  have c: "closed_keys (remove_subtree p s)"
    unfolding closed_keys_def list_all_iff
  proof (intro ballI)
    fix k assume k: "k \<in> set (keys (remove_subtree p s))"
    then have ks: "k \<in> set (keys s)" and nu: "\<not> beneath p k"
      by (auto simp: keys_remove_subtree)
    show "length k \<le> 1 \<or> butlast k \<in> set (keys (remove_subtree p s))"
    proof (cases "length k \<le> 1")
      case False
      then have "butlast k \<in> set (keys s)"
        using closed_parent[OF _ ks] assms by (simp add: wf_tree_def)
      moreover have "\<not> beneath p (butlast k)"
      proof
        assume "beneath p (butlast k)"
        moreover have "beneath (butlast k) k" using False by (intro beneath_butlast_self) auto
        ultimately show False using nu beneath_trans by blast
      qed
      ultimately show ?thesis by (simp add: keys_remove_subtree)
    qed simp
  qed
  show ?thesis using d v c by (simp add: wf_tree_def wf_scene_keys)
qed

subsection \<open>What depends on the nodes only\<close>


subsection \<open>Moving a subtree\<close>








subsection \<open>Copies appended to the scene\<close>


lemma fst_renumber [simp]: "map fst (renumber k es) = map fst es"
  by (induction es arbitrary: k) simp_all

lemma length_renumber [simp]: "length (renumber k es) = length es"
  by (induction es arbitrary: k) simp_all







subsection \<open>Names of nodes\<close>














subsection \<open>Updates and world transforms\<close>

lemma update_node_twice:
  "update_node p f (update_node p g s) = update_node p (\<lambda>v. f (g v)) s"
  by (simp add: update_node_def comp_def if_distrib cong: if_cong)

lemma world_rev_update_other:
  "\<not> beneath c (rev r) \<Longrightarrow> world_rev (update_node c f s) r = world_rev s r"
proof (induction r)
  case Nil
  then show ?case by simp
next
  case (Cons x r)
  have "\<not> beneath c (rev r)"
    using Cons.prems beneath_trans[of c "rev r" "rev r @ [x]"] by auto
  moreover have "rev r @ [x] \<noteq> c" using Cons.prems by auto
  ultimately show ?case using Cons.IH by (simp add: lookup_update_node)
qed

lemma world_update_other: "\<not> beneath c q \<Longrightarrow> world (update_node c f s) q = world s q"
  by (simp add: world_def world_rev_update_other)



section \<open>Host commands on scene trees\<close>

subsection \<open>Identity transforms\<close>

lemma compose_identity [simp]: "compose a identity = a"
  by (cases a; cases "ax a"; cases "ay a"; cases "az a"; cases "tr a")
     (simp add: compose_def identity_def lin_apply_def apply_point_def vadd_def vscale_def)


lemma world_Nil [simp]: "world s [] = identity"
  by (simp add: world_def)


subsection \<open>Duplicating\<close>



subsection \<open>Parenting\<close>

lemma parent_one_InrE:
  assumes "parent_one child t s = (Inr r, s')"
  obtains c n nm where "resolve s child = Some (c, n)" and "\<not> lock_node n"
    and "\<not> beneath c t" and "butlast c \<noteq> t"
    and "unique_name (child_names s t) (last c) = Some nm"
    and "r = name_of_path (t @ [nm])"
    and "s' = move_subtree c (t @ [nm])
                (update_node c (\<lambda>v. v\<lparr>xf := compose (world s c) (inverse_affine (world s t))\<rparr>) s)"
  using assms
  by (auto simp: parent_one_def split: option.splits if_splits)

lemma nodes_select_names: "select_names ns s = (r, s') \<Longrightarrow> r = Inr () \<and> nodes s' = nodes s \<and> undo_log s' = undo_log s \<and> next_uid s' = next_uid s"
  by (auto simp: select_names_def)

lemma parent_all_single_InrE:
  assumes "thn (parent_all [child] t) (\<lambda>rs. thn (select_names rs) (\<lambda>_. ret rs)) s = (Inr rs, s')"
  obtains r s1 where "parent_one child t s = (Inr r, s1)" and "rs = [r]" and "nodes s' = nodes s1"
    and "undo_log s' = undo_log s1"
proof -
  from assms obtain rs1 s1' where a: "parent_all [child] t s = (Inr rs1, s1')"
    and b: "thn (select_names rs1) (\<lambda>_. ret rs1) s1' = (Inr rs, s')"
    by (rule thn_InrE)
  from a obtain r s1 where p: "parent_one child t s = (Inr r, s1)" and "rs1 = [r]" "s1' = s1"
    by (auto simp: thn_def ret_def split: prod.splits sum.splits)
  moreover from b have "rs = rs1" "nodes s' = nodes s1'" "undo_log s' = undo_log s1'"
    by (auto simp: thn_def ret_def select_names_def split: prod.splits sum.splits)
  ultimately show ?thesis using that by simp
qed


lemma parent_InrE:
  assumes "cmds_parent [child] target s = (Inr rs, s')"
  obtains t tn c n nm where "resolve s target = Some (t, tn)"
    and "resolve s child = Some (c, n)" and "\<not> lock_node n"
    and "\<not> beneath c t" and "butlast c \<noteq> t"
    and "unique_name (child_names s t) (last c) = Some nm"
    and "rs = [name_of_path (t @ [nm])]"
    and "nodes s' = nodes (move_subtree c (t @ [nm])
                (update_node c (\<lambda>v. v\<lparr>xf := compose (world s c) (inverse_affine (world s t))\<rparr>) s))"
    and "undo_log s' = undo_log s"
proof -
  from assms obtain t tn where t: "resolve s target = Some (t, tn)"
    and a: "thn (parent_all [child] t) (\<lambda>rs. thn (select_names rs) (\<lambda>_. ret rs)) s = (Inr rs, s')"
    by (auto simp: cmds_parent_def split: option.splits)
  from a obtain r s1 where p: "parent_one child t s = (Inr r, s1)" and rs: "rs = [r]"
    and n: "nodes s' = nodes s1" and u: "undo_log s' = undo_log s1"
    by (rule parent_all_single_InrE)
  from p show ?thesis
  proof (rule parent_one_InrE)
    fix c n nm
    assume "resolve s child = Some (c, n)" "\<not> lock_node n" "\<not> beneath c t" "butlast c \<noteq> t"
      "unique_name (child_names s t) (last c) = Some nm" "r = name_of_path (t @ [nm])"
      "s1 = move_subtree c (t @ [nm])
              (update_node c (\<lambda>v. v\<lparr>xf := compose (world s c) (inverse_affine (world s t))\<rparr>) s)"
    then show ?thesis using that[of t tn c n nm] t rs n u by (simp add: move_subtree_def update_node_def)
  qed
qed

subsection \<open>Locks\<close>

lemma lockNode_eval:
  "resolve s name = Some (p, n) \<Longrightarrow>
   cmds_lockNode name b s = (Inr (), update_node p (\<lambda>v. v\<lparr>lock_node := b\<rparr>) s)"
  by (simp add: cmds_lockNode_def)

lemma setAttr_lock_eval:
  assumes "valid_path p" "lookup s p = Some n" "\<not> lock_node n"
  shows "cmds_setAttr_lock (name_of_path p @ ''.translate'') b s = (Inr (), update_node p (\<lambda>v. v\<lparr>lock_translate := b\<rparr>) s)"
    and "cmds_setAttr_lock (name_of_path p @ ''.rotate'') b s = (Inr (), update_node p (\<lambda>v. v\<lparr>lock_rotate := b\<rparr>) s)"
    and "cmds_setAttr_lock (name_of_path p @ ''.scale'') b s = (Inr (), update_node p (\<lambda>v. v\<lparr>lock_scale := b\<rparr>) s)"
  using resolve_plug_name[OF assms(1,2), of "''translate''"]
        resolve_plug_name[OF assms(1,2), of "''rotate''"]
        resolve_plug_name[OF assms(1,2), of "''scale''"] assms(3)
  by (simp_all add: cmds_setAttr_lock_def)


lemma lockTransform_eval:
  assumes "valid_path p" "lookup s p = Some n" "\<not> lock_node n"
  shows "lockTransform (name_of_path p) s = (Inr (), update_node p lock_fields s)"
proof -
  let ?s1 = "update_node p (\<lambda>v. v\<lparr>lock_translate := True\<rparr>) s"
  let ?s2 = "update_node p (\<lambda>v. v\<lparr>lock_rotate := True\<rparr>) ?s1"
  let ?s3 = "update_node p (\<lambda>v. v\<lparr>lock_scale := True\<rparr>) ?s2"
  have 1: "cmds_setAttr_lock (name_of_path p @ ''.translate'') True s = (Inr (), ?s1)"
    using setAttr_lock_eval(1)[OF assms] .
  have l1: "lookup ?s1 p = Some (n\<lparr>lock_translate := True\<rparr>)" by (simp add: lookup_update_node assms(2))
  have 2: "cmds_setAttr_lock (name_of_path p @ ''.rotate'') True ?s1 = (Inr (), ?s2)"
    using setAttr_lock_eval(2)[OF assms(1) l1] assms(3) by simp
  have l2: "lookup ?s2 p = Some (n\<lparr>lock_translate := True, lock_rotate := True\<rparr>)"
    by (simp add: lookup_update_node assms(2))
  have 3: "cmds_setAttr_lock (name_of_path p @ ''.scale'') True ?s2 = (Inr (), ?s3)"
    using setAttr_lock_eval(3)[OF assms(1) l2] assms(3) by simp
  have l3: "lookup ?s3 p = Some (n\<lparr>lock_translate := True, lock_rotate := True, lock_scale := True\<rparr>)"
    by (simp add: lookup_update_node assms(2))
  have r3: "resolve ?s3 (name_of_path p) = Some (p, n\<lparr>lock_translate := True, lock_rotate := True, lock_scale := True\<rparr>)"
    using resolve_name[OF assms(1) l3] .
  have 4: "cmds_lockNode (name_of_path p) True ?s3 = (Inr (), update_node p (\<lambda>v. v\<lparr>lock_node := True\<rparr>) ?s3)"
    using lockNode_eval[OF r3] .
  have e: "update_node p (\<lambda>v. v\<lparr>lock_node := True\<rparr>) ?s3 = update_node p lock_fields s"
    by (simp add: update_node_twice) (simp add: lock_fields_def[abs_def])
  show ?thesis
    unfolding lockTransform_def
    by (simp add: thn_def 1 2 3 4 e)
qed

section \<open>Instantiating a given original\<close>

subsection \<open>Errors of the host only\<close>

lemma host_errors_onlyI:
  "(\<And>s e s'. m s = (Inl e, s') \<Longrightarrow> \<forall>msg. e \<noteq> CmdsError msg) \<Longrightarrow> host_errors_only m"
  by (simp add: host_errors_only_def)

lemma host_errors_onlyD: "host_errors_only m \<Longrightarrow> m s = (Inl e, s') \<Longrightarrow> e \<noteq> CmdsError msg"
  unfolding host_errors_only_def by blast

lemma host_errors_only_thn [intro!]:
  assumes "host_errors_only m" and "\<And>x. host_errors_only (f x)"
  shows "host_errors_only (thn m f)"
proof (rule host_errors_onlyI)
  fix s e s' assume a: "thn m f s = (Inl e, s')"
  obtain r1 s1 where m: "m s = (r1, s1)" by (cases "m s")
  show "\<forall>msg. e \<noteq> CmdsError msg"
  proof (cases r1)
    case (Inl e1)
    with a m have "e = e1" by (simp add: thn_def)
    then show ?thesis using host_errors_onlyD[OF assms(1)] m Inl by blast
  next
    case (Inr x)
    with a m have "f x s1 = (Inl e, s')" by (simp add: thn_def)
    then show ?thesis using host_errors_onlyD[OF assms(2)] by blast
  qed
qed

lemma host_errors_only_ret [intro!, simp]: "host_errors_only (ret x)"
  by (simp add: host_errors_only_def ret_def)

lemma host_errors_only_idx0 [intro!, simp]: "host_errors_only (idx0 xs)"
  by (cases xs) (simp_all add: idx0_def host_errors_only_def raise_def ret_def)

lemma host_errors_only_duplicate [intro!, simp]: "host_errors_only (cmds_duplicate name)"
  by (auto simp: host_errors_only_def cmds_duplicate_def Let_def split: option.splits)

lemma host_errors_only_lockNode [intro!, simp]: "host_errors_only (cmds_lockNode name b)"
  by (auto simp: host_errors_only_def cmds_lockNode_def split: option.splits)

lemma host_errors_only_setAttr_lock [intro!, simp]: "host_errors_only (cmds_setAttr_lock plug b)"
  by (auto simp: host_errors_only_def cmds_setAttr_lock_def split: option.splits if_splits)

lemma host_errors_only_parent_one [intro!, simp]: "host_errors_only (parent_one c t)"
  by (auto simp: host_errors_only_def parent_one_def split: option.splits if_splits)

lemma host_errors_only_parent_all [intro!, simp]: "host_errors_only (parent_all cs t)"
  by (induction cs) auto

lemma host_errors_only_select_names [intro!, simp]: "host_errors_only (select_names ns)"
  by (simp add: host_errors_only_def select_names_def)

lemma host_errors_only_parent_world [intro!, simp]: "host_errors_only (cmds_parent_world cs)"
  unfolding cmds_parent_world_def by auto

lemma host_errors_only_unlockTransform [intro!, simp]: "host_errors_only (unlockTransform node)"
  unfolding unlockTransform_def by auto




subsection \<open>The selection is not read\<close>




subsection \<open>The copy and the rest of the scene\<close>

lemma beneath_snoc_cons [simp]: "beneath (a @ [x]) (a @ x # r)"
  by (simp add: beneath_def)




subsection \<open>A free name is always found\<close>

lemma digit_val_char: "d < 10 \<Longrightarrow> digit_val (digit_char d) = d"
proof -
  assume "d < 10"
  then consider "d = 0" | "d = 1" | "d = 2" | "d = 3" | "d = 4" | "d = 5" | "d = 6" | "d = 7"
    | "d = 8" | "d = 9" by (auto simp: numeral_eq_Suc less_Suc_eq)
  then show ?thesis by cases (simp_all add: digit_val_def digit_char_def)
qed

lemma digits_val_snoc: "digits_val (ds @ [c]) = 10 * digits_val ds + digit_val c"
  by (simp add: digits_val_def)

lemma digits_val_upto: "n < 10 ^ Suc k \<Longrightarrow> digits_val (digits_upto k n) = n"
proof (induction k arbitrary: n)
  case 0
  then show ?case by (simp add: digits_val_def digit_val_char)
next
  case (Suc k)
  show ?case
  proof (cases "n < 10")
    case True
    then show ?thesis by (simp add: digits_val_def digit_val_char)
  next
    case False
    have "n div 10 < 10 ^ Suc k" using Suc.prems by (simp add: less_mult_imp_div_less)
    then have "digits_val (digits_upto k (n div 10)) = n div 10" by (rule Suc.IH)
    then show ?thesis using False by (simp add: digits_val_snoc digit_val_char)
  qed
qed

lemma less_ten_power: "n < 10 ^ Suc n"
proof (induction n)
  case 0
  show ?case by simp
next
  case (Suc n)
  have "Suc n < 10 * 10 ^ Suc n" using Suc by simp
  then show ?case by simp
qed

lemma digits_val_digits: "digits_val (digits n) = n"
  unfolding digits_def by (rule digits_val_upto[OF less_ten_power])

lemma inj_digits: "inj digits"
  by (rule inj_on_inverseI[of _ digits_val]) (rule digits_val_digits)

lemma first_free_None:
  "first_free taken st i k = None \<Longrightarrow> (\<lambda>j. st @ digits j) ` {i..<i + k} \<subseteq> set taken"
proof (induction k arbitrary: i)
  case 0
  then show ?case by simp
next
  case (Suc k)
  from Suc.prems have a: "st @ digits i \<in> set taken" and b: "first_free taken st (Suc i) k = None"
    by (auto split: if_splits)
  have "{i..<i + Suc k} = insert i {Suc i..<Suc i + k}" by auto
  then show ?case using Suc.IH[OF b] a by auto
qed

lemma unique_name_total: "\<exists>nm. unique_name taken b = Some nm"
proof (cases "unique_name taken b")
  case None
  then have f: "first_free taken (stem b) 1 (Suc (length taken)) = None"
    by (auto simp: unique_name_def split: if_splits)
  let ?f = "\<lambda>j. stem b @ digits j"
  have "inj ?f" using inj_digits by (auto simp: inj_def)
  then have "card (?f ` {1..<1 + Suc (length taken)}) = Suc (length taken)"
    by (simp add: card_image inj_on_def)
  moreover have "card (?f ` {1..<1 + Suc (length taken)}) \<le> card (set taken)"
    by (rule card_mono[OF _ first_free_None[OF f]]) simp
  moreover have "card (set taken) \<le> length taken" by (rule card_length)
  ultimately show ?thesis by simp
next
  case (Some a)
  then show ?thesis by simp
qed

subsection \<open>Commands that succeed\<close>


lemma parent_one_succeeds:
  assumes "resolve s child = Some (c, n)" "\<not> lock_node n" "\<not> beneath c t" "butlast c \<noteq> t"
  shows "\<exists>r s1. parent_one child t s = (Inr r, s1)"
proof -
  obtain nm where "unique_name (child_names s t) (last c) = Some nm"
    using unique_name_total by blast
  then show ?thesis using assms by (simp add: parent_one_def)
qed

lemma select_names_Inr: "\<exists>s'. select_names ns s = (Inr (), s')"
  by (simp add: select_names_def)


lemma parent_succeeds:
  assumes "resolve s target = Some (t, tn)"
      and "resolve s child = Some (c, n)" "\<not> lock_node n" "\<not> beneath c t" "butlast c \<noteq> t"
  shows "\<exists>rs s1. cmds_parent [child] target s = (Inr rs, s1)"
proof -
  obtain r s1 where p: "parent_one child t s = (Inr r, s1)"
    using parent_one_succeeds[OF assms(2-5)] by blast
  obtain s2 where "select_names [r] s1 = (Inr (), s2)" using select_names_Inr by blast
  then show ?thesis using p assms(1) by (simp add: cmds_parent_def thn_def ret_def)
qed






section \<open>Attaching the locators to any node\<close>

subsection \<open>One more leaf\<close>

lemma keys_add_leaf [simp]: "keys (add_leaf p c v s) = keys s @ [p @ [c]]"
  by (simp add: keys_def add_leaf_def)



lemma keys_wf_tree: "keys a = keys b \<Longrightarrow> wf_tree a = wf_tree b"
  by (simp add: wf_tree_def wf_scene_keys closed_keys_def)



lemma identity_compose [simp]: "compose identity b = b"
  by (cases b; cases "ax b"; cases "ay b"; cases "az b"; cases "tr b")
     (simp add: compose_def identity_def lin_apply_def apply_point_def vadd_def vscale_def)



subsection \<open>Making one locator\<close>



subsection \<open>The four locators\<close>






section \<open>The frame sampled after a change of transform\<close>






lemma length_vec_list [simp]: "length (vec_list v) = 3"
  by (cases v) (simp add: vec_list_def)





end
